theory Spec2Isabelle
  imports Main "HOL-Library.AList" "HOL-Library.Sublist"
begin

section \<open>Texts and character classes\<close>

text \<open>
  A message text is a Python \<open>str\<close>, a sequence of code points. It is modelled as a
  \<open>string\<close>, each \<open>char\<close> standing for the code point of its number, so the texts of
  the model are the texts whose code points lie below 256. On that range the classes
  of Python's \<open>re\<close> module (Unicode patterns, flag \<open>re.IGNORECASE\<close>) are the ones
  below: \<open>\d\<close> is the ten ASCII digits, \<open>\s\<close> is the ASCII whitespace together with
  the separators 0x1C..0x1F, NEL (0x85) and the no-break space (0xA0), and a letter of the
  pattern matches exactly its own two cases.
\<close>

definition uppers :: string where
  "uppers = ''ABCDEFGHIJKLMNOPQRSTUVWXYZ''"

definition lowers :: string where
  "lowers = ''abcdefghijklmnopqrstuvwxyz''"

definition to_lower :: "char \<Rightarrow> char" where
  "to_lower c = (case map_of (zip uppers lowers) c of Some d \<Rightarrow> d | None \<Rightarrow> c)"

definition to_upper :: "char \<Rightarrow> char" where
  "to_upper c = (case map_of (zip lowers uppers) c of Some d \<Rightarrow> d | None \<Rightarrow> c)"

text \<open>\<open>str.upper()\<close>, on the strings the extractor applies it to (ASCII letters and \<open>/\<close>).\<close>

definition upper :: "string \<Rightarrow> string" where
  "upper s = map to_upper s"

text \<open>The class \<open>[A-Z]\<close> under \<open>re.IGNORECASE\<close>.\<close>

definition is_letter :: "char \<Rightarrow> bool" where
  "is_letter c = (c \<in> set uppers \<or> c \<in> set lowers)"

text \<open>The class \<open>\d\<close>.\<close>

definition is_digit :: "char \<Rightarrow> bool" where
  "is_digit c = (c \<in> set ''0123456789'')"

text \<open>The class \<open>\s\<close>.\<close>

definition is_space :: "char \<Rightarrow> bool" where
  "is_space c = (c \<in> set [CHR 0x09, CHR 0x0A, CHR 0x0B, CHR 0x0C, CHR 0x0D,
                           CHR 0x1C, CHR 0x1D, CHR 0x1E, CHR 0x1F, CHR 0x20,
                           CHR 0x85, CHR 0xA0])"

text \<open>The class \<open>[:\s]\<close>.\<close>

definition is_colon_or_space :: "char \<Rightarrow> bool" where
  "is_colon_or_space c = (c = CHR '':'' \<or> is_space c)"

text \<open>The class \<open>[\d.]\<close>.\<close>

definition is_digit_or_dot :: "char \<Rightarrow> bool" where
  "is_digit_or_dot c = (is_digit c \<or> c = CHR ''.'')"


section \<open>Backtracking regular expressions\<close>

text \<open>
  A regular expression is modelled by what Python's backtracking matcher does with it at
  the start of an input: the list of its possible matches there, each the matched text
  with the input left over, in the order in which the matcher tries them. An alternation
  tries its branches from left to right and a greedy repetition tries the longest run
  first, so the head of the list is the match that \<open>re\<close> reports.
\<close>

type_synonym regex = "string \<Rightarrow> (string \<times> string) list"

text \<open>A literal, compared case-insensitively.\<close>

fun lit :: "string \<Rightarrow> regex" where
  "lit [] s = [([], s)]"
| "lit (p # ps) [] = []"
| "lit (p # ps) (c # cs) =
     (if to_lower c = to_lower p then map (\<lambda>(m, r). (c # m, r)) (lit ps cs) else [])"

text \<open>\<open>a|b\<close>\<close>

definition alt :: "regex \<Rightarrow> regex \<Rightarrow> regex" where
  "alt a b s = a s @ b s"

text \<open>\<open>ab\<close>\<close>

definition seq :: "regex \<Rightarrow> regex \<Rightarrow> regex" where
  "seq a b s = concat (map (\<lambda>(m1, r1). map (\<lambda>(m2, r2). (m1 @ m2, r2)) (b r1)) (a s))"

text \<open>At most \<open>n\<close> characters of a class, greedily: the longest run first, then each shorter one.\<close>

fun greedy :: "(char \<Rightarrow> bool) \<Rightarrow> nat \<Rightarrow> regex" where
  "greedy P 0 s = [([], s)]"
| "greedy P (Suc n) [] = [([], [])]"
| "greedy P (Suc n) (c # cs) =
     (if P c then map (\<lambda>(m, r). (c # m, r)) (greedy P n cs) @ [([], c # cs)]
      else [([], c # cs)])"

text \<open>\<open>[class]{lo,hi}\<close>\<close>

definition reps :: "(char \<Rightarrow> bool) \<Rightarrow> nat \<Rightarrow> nat \<Rightarrow> regex" where
  "reps P lo hi s = filter (\<lambda>(m, r). lo \<le> length m) (greedy P hi s)"

text \<open>\<open>[class]*\<close>\<close>

definition star :: "(char \<Rightarrow> bool) \<Rightarrow> regex" where
  "star P s = reps P 0 (length s) s"

text \<open>\<open>[class]+\<close>\<close>

definition plus :: "(char \<Rightarrow> bool) \<Rightarrow> regex" where
  "plus P s = reps P 1 (length s) s"

text \<open>
  A pattern of the shape \<open>(g1)mid(g2)\<close>, which all four patterns of the source have: its
  matches at the start of the input, each with the texts of its two groups.
\<close>

definition two_groups :: "regex \<Rightarrow> regex \<Rightarrow> regex \<Rightarrow> string \<Rightarrow> (string \<times> string) list" where
  "two_groups g1 mid g2 s =
     concat (map (\<lambda>(m1, r1).
       concat (map (\<lambda>(m, r).
         map (\<lambda>(m2, r2). (m1, m2)) (g2 r)) (mid r1))) (g1 s))"

text \<open>
  \<open>re.search\<close>: the match at the leftmost position of the text that has one (the
  empty suffix is tried last), or \<open>None\<close>.
\<close>

fun search :: "(string \<Rightarrow> 'a list) \<Rightarrow> string \<Rightarrow> 'a option" where
  "search p [] = (case p [] of [] \<Rightarrow> None | x # _ \<Rightarrow> Some x)"
| "search p (c # cs) = (case p (c # cs) of [] \<Rightarrow> search p cs | x # _ \<Rightarrow> Some x)"


section \<open>The patterns of the extractor\<close>

text \<open>\<open>[A-Z]{3,6}\/[A-Z]{3,6}|XAUUSD|XAU\/USD|GBPUSD|EURUSD\<close>\<close>

definition instrument :: regex where
  "instrument =
     alt (seq (reps is_letter 3 6) (seq (lit ''/'') (reps is_letter 3 6)))
    (alt (lit ''XAUUSD'')
    (alt (lit ''XAU/USD'')
    (alt (lit ''GBPUSD'')
         (lit ''EURUSD''))))"

text \<open>\<open>\s*[:\s]*\<close>, which stands between a label and its value.\<close>

definition separator :: regex where
  "separator = seq (star is_space) (star is_colon_or_space)"

text \<open>\<open>(BUY|SELL)\s*([A-Z]{3,6}\/[A-Z]{3,6}|XAUUSD|XAU\/USD|GBPUSD|EURUSD)\<close>\<close>

definition action_pattern :: "string \<Rightarrow> (string \<times> string) list" where
  "action_pattern = two_groups (alt (lit ''BUY'') (lit ''SELL'')) (star is_space) instrument"

text \<open>\<open>(Entry|Enter|En)\s*[:\s]*([\d.]+)\<close>\<close>

definition entry_pattern :: "string \<Rightarrow> (string \<times> string) list" where
  "entry_pattern =
     two_groups (alt (lit ''Entry'') (alt (lit ''Enter'') (lit ''En''))) separator
       (plus is_digit_or_dot)"

text \<open>\<open>(TP|Take\s*Profit)\s*[:\s]*([\d.]+)\<close>\<close>

definition tp_pattern :: "string \<Rightarrow> (string \<times> string) list" where
  "tp_pattern =
     two_groups (alt (lit ''TP'') (seq (lit ''Take'') (seq (star is_space) (lit ''Profit''))))
       separator (plus is_digit_or_dot)"

text \<open>\<open>(SL|Stop\s*Loss)\s*[:\s]*([\d.]+)\<close>\<close>

definition sl_pattern :: "string \<Rightarrow> (string \<times> string) list" where
  "sl_pattern =
     two_groups (alt (lit ''SL'') (seq (lit ''Stop'') (seq (star is_space) (lit ''Loss''))))
       separator (plus is_digit_or_dot)"


section \<open>The extractor\<close>

text \<open>
  The record is a Python \<open>dict\<close> from field names to strings, kept as an association
  list in insertion order. \<open>AList.update\<close> is the assignment \<open>trade[k] = v\<close>.
\<close>

type_synonym trade = "(string \<times> string) list"

text \<open>\<open>if m: trade[k] = m.group(2)\<close>\<close>

definition set_group2 :: "string \<Rightarrow> (string \<times> string) option \<Rightarrow> trade \<Rightarrow> trade" where
  "set_group2 k m trade = (case m of None \<Rightarrow> trade | Some (g1, g2) \<Rightarrow> AList.update k g2 trade)"

definition parse_trade_signal :: "string \<Rightarrow> trade option" where
  "parse_trade_signal message_text =
     (case search action_pattern message_text of
        None \<Rightarrow> None
      | Some (g1, g2) \<Rightarrow>
          (let trade = [];
               trade = AList.update ''action'' (upper g1) trade;
               trade = AList.update ''symbol'' (filter (\<lambda>c. c \<noteq> CHR ''/'') (upper g2)) trade;
               trade = set_group2 ''entry'' (search entry_pattern message_text) trade;
               trade = set_group2 ''tp'' (search tp_pattern message_text) trade;
               trade = set_group2 ''sl'' (search sl_pattern message_text) trade
           in if map_of trade ''action'' \<noteq> None \<and> map_of trade ''symbol'' \<noteq> None
              then Some trade else None))"


section \<open>The dispatch pipeline\<close>

text \<open>
  An inbound event: the chat it comes from and \<open>event.message.message\<close>, which is
  \<open>None\<close>, empty or a text.
\<close>

record event =
  chat_id :: int
  message :: "string option"

text \<open>
  The outbound message holds the code point U+1F525, so a message body is a list of code
  points; the characters of a text enter it under their own numbers.
\<close>

type_synonym body = "nat list"

definition code_points :: "string \<Rightarrow> body" where
  "code_points s = map of_char s"

definition fire :: body where
  "fire = [0x1F525]"

definition newline :: body where
  "newline = [0x0A]"

text \<open>\<open>trade_signal.get(k, default)\<close>; \<open>get(k)\<close> alone has the default \<open>None\<close>, which an f-string prints
  as the text \<open>None\<close>.\<close>

definition get :: "trade \<Rightarrow> string \<Rightarrow> string \<Rightarrow> string" where
  "get trade_signal k dflt = (case map_of trade_signal k of None \<Rightarrow> dflt | Some v \<Rightarrow> v)"

definition formatted_message :: "trade \<Rightarrow> body" where
  "formatted_message trade_signal =
     fire @ code_points '' **Forwarded Signal: '' @ code_points (get trade_signal ''symbol'' ''None'')
       @ code_points ''** '' @ fire @ newline @ newline
     @ code_points ''```'' @ newline
     @ code_points ''Action:      '' @ code_points (get trade_signal ''action'' ''None'') @ newline
     @ code_points ''Entry:       '' @ code_points (get trade_signal ''entry'' ''Not Specified'') @ newline
     @ code_points ''Stop Loss:   '' @ code_points (get trade_signal ''sl'' ''Not Specified'') @ newline
     @ code_points ''Take Profit: '' @ code_points (get trade_signal ''tp'' ''Not Specified'') @ newline
     @ code_points ''```''"

text \<open>
  What \<open>client.send_message\<close> may raise: an instance of \<open>Exception\<close>, which the handler's
  \<open>except Exception\<close> catches, or of another subclass of \<open>BaseException\<close> (a cancellation,
  an interrupt), which it does not. Each carries its message.
\<close>

datatype exn = Exception string | BaseException string

text \<open>
  The destination: from its state, the channel and the body it answers a send with
  \<open>None\<close> (delivered) or with what it raises, and moves to a new state.
\<close>

type_synonym 'w sink = "'w \<Rightarrow> int \<Rightarrow> body \<Rightarrow> exn option \<times> 'w"

text \<open>The lines the handler prints.\<close>

datatype log_line =
    NewMessage int
  | NoText
  | Detected trade
  | Forwarded
  | SendError string
  | NoSignal

text \<open>What the handler does, in order: a \<open>print\<close>, or one call of \<open>client.send_message\<close>
  with the destination and the body (its \<open>parse_mode\<close> is always \<open>Markdown\<close>).\<close>

datatype effect = Print log_line | SendMessage int body

text \<open>
  The handler, with the extractor it calls as its first argument. It returns the
  exception that leaves it (\<open>None\<close> when it returns normally), its effects in order and
  the destination's new state.
\<close>

definition handler_on ::
  "(string \<Rightarrow> trade option) \<Rightarrow> 'w sink \<Rightarrow> int \<Rightarrow> 'w \<Rightarrow> event \<Rightarrow> exn option \<times> effect list \<times> 'w" where
  "handler_on extract send_message destination_channel_id w ev =
     (let out = [Print (NewMessage (chat_id ev))] in
      case message ev of
        None \<Rightarrow> (None, out @ [Print NoText], w)
      | Some message_text \<Rightarrow>
          if message_text = [] then (None, out @ [Print NoText], w)
          else
            (case extract message_text of
               None \<Rightarrow> (None, out @ [Print NoSignal], w)
             | Some trade_signal \<Rightarrow>
                 if trade_signal = [] then (None, out @ [Print NoSignal], w)
                 else
                   (let out = out @ [Print (Detected trade_signal)];
                        out = out @ [SendMessage destination_channel_id (formatted_message trade_signal)]
                    in case send_message w destination_channel_id (formatted_message trade_signal) of
                         (None, w') \<Rightarrow> (None, out @ [Print Forwarded], w')
                       | (Some (Exception e), w') \<Rightarrow> (None, out @ [Print (SendError e)], w')
                       | (Some (BaseException e), w') \<Rightarrow> (Some (BaseException e), out, w'))))"

definition handler :: "'w sink \<Rightarrow> int \<Rightarrow> 'w \<Rightarrow> event \<Rightarrow> exn option \<times> effect list \<times> 'w" where
  "handler = handler_on parse_trade_signal"

text \<open>The send attempts among the effects.\<close>

fun sends :: "effect list \<Rightarrow> (int \<times> body) list" where
  "sends [] = []"
| "sends (Print l # es) = sends es"
| "sends (SendMessage d b # es) = (d, b) # sends es"

text \<open>
  Modelled from the spec: the event loop of the transport library, which is not part of
  the repository. The subscription \<open>events.NewMessage(chats=source_channel_ids)\<close>
  delivers the events of the source channels, and the handler runs once for each, in
  order; an exception that leaves a handler ends the run here.
\<close>

fun dispatch ::
  "'w sink \<Rightarrow> int list \<Rightarrow> int \<Rightarrow> 'w \<Rightarrow> event list \<Rightarrow> exn option \<times> effect list \<times> 'w" where
  "dispatch send_message source_channel_ids destination_channel_id w [] = (None, [], w)"
| "dispatch send_message source_channel_ids destination_channel_id w (ev # evs) =
     (if chat_id ev \<in> set source_channel_ids then
        (case handler send_message destination_channel_id w ev of
           (Some x, out, w') \<Rightarrow> (Some x, out, w')
         | (None, out, w') \<Rightarrow>
             (case dispatch send_message source_channel_ids destination_channel_id w' evs of
                (r, out', w'') \<Rightarrow> (r, out @ out', w'')))
      else dispatch send_message source_channel_ids destination_channel_id w evs)"


section \<open>Startup\<close>

record config =
  api_id :: int
  api_hash :: string
  source_channel_ids :: "int list"
  destination_channel_id :: int

text \<open>The two exceptions that \<open>main\<close> catches, with the key or the text they are about.\<close>

datatype config_error = KeyError string | ValueError string

text \<open>\<open>os.environ[k]\<close>\<close>

definition environ :: "(string \<rightharpoonup> string) \<Rightarrow> string \<Rightarrow> config_error + string" where
  "environ env k = (case env k of None \<Rightarrow> Inl (KeyError k) | Some v \<Rightarrow> Inr v)"

text \<open>
  \<open>int(s)\<close>. Python's conversion of a text to an integer is a builtin of the language,
  taken as the parameter \<open>to_int\<close>: \<open>None\<close> where \<open>int\<close> raises \<open>ValueError\<close>.
\<close>

definition int_of :: "(string \<Rightarrow> int option) \<Rightarrow> string \<Rightarrow> config_error + int" where
  "int_of to_int s = (case to_int s of None \<Rightarrow> Inl (ValueError s) | Some n \<Rightarrow> Inr n)"

text \<open>\<open>s.split(',')\<close>\<close>

fun split_comma :: "string \<Rightarrow> string list" where
  "split_comma [] = [[]]"
| "split_comma (c # cs) =
     (if c = CHR '','' then [] # split_comma cs
      else (case split_comma cs of [] \<Rightarrow> [[c]] | x # xs \<Rightarrow> (c # x) # xs))"

text \<open>\<open>x.strip()\<close>\<close>

definition strip :: "string \<Rightarrow> string" where
  "strip x = rev (dropWhile is_space (rev (dropWhile is_space x)))"

text \<open>\<open>[int(x.strip()) for x in xs]\<close>: from left to right, up to the first that raises.\<close>

fun ints_of :: "(string \<Rightarrow> int option) \<Rightarrow> string list \<Rightarrow> config_error + int list" where
  "ints_of to_int [] = Inr []"
| "ints_of to_int (x # xs) =
     (case int_of to_int (strip x) of
        Inl e \<Rightarrow> Inl e
      | Inr n \<Rightarrow> (case ints_of to_int xs of Inl e \<Rightarrow> Inl e | Inr ns \<Rightarrow> Inr (n # ns)))"

text \<open>The body of the \<open>try\<close> in \<open>main\<close>: the four settings, read in the order of the source.\<close>

definition load_config :: "(string \<Rightarrow> int option) \<Rightarrow> (string \<rightharpoonup> string) \<Rightarrow> config_error + config" where
  "load_config to_int env =
     (case environ env ''API_ID'' of Inl e \<Rightarrow> Inl e | Inr v1 \<Rightarrow>
      case int_of to_int v1 of Inl e \<Rightarrow> Inl e | Inr a \<Rightarrow>
      case environ env ''API_HASH'' of Inl e \<Rightarrow> Inl e | Inr h \<Rightarrow>
      case environ env ''SOURCE_CHANNEL_IDS'' of Inl e \<Rightarrow> Inl e | Inr v3 \<Rightarrow>
      case ints_of to_int (split_comma v3) of Inl e \<Rightarrow> Inl e | Inr srcs \<Rightarrow>
      case environ env ''DESTINATION_CHANNEL_ID'' of Inl e \<Rightarrow> Inl e | Inr v4 \<Rightarrow>
      case int_of to_int v4 of Inl e \<Rightarrow> Inl e | Inr d \<Rightarrow>
        Inr \<lparr>api_id = a, api_hash = h, source_channel_ids = srcs, destination_channel_id = d\<rparr>)"

text \<open>The steps of \<open>main\<close>, in order.\<close>

datatype startup_step =
    PrintStarting
  | PrintSecretsError config_error
  | CreateClient string int string
  | Subscribe "int list" int
  | StartClient
  | PrintListening "int list"
  | RunUntilDisconnected

definition main :: "(string \<Rightarrow> int option) \<Rightarrow> (string \<rightharpoonup> string) \<Rightarrow> startup_step list" where
  "main to_int env =
     PrintStarting #
     (case load_config to_int env of
        Inl e \<Rightarrow> [PrintSecretsError e]
      | Inr c \<Rightarrow>
          [CreateClient ''signal_copier.session'' (api_id c) (api_hash c),
           Subscribe (source_channel_ids c) (destination_channel_id c),
           StartClient,
           PrintListening (source_channel_ids c),
           RunUntilDisconnected])"

text \<open>
  An instance of \<open>to_int\<close>, for the examples: \<open>int\<close> of CPython on a text of code points
  below 256, with the default limit of 4300 digits. Around the number \<open>int\<close> skips the
  characters 0x09 to 0x0D and the space, and the characters 0x85 and 0xA0, which it reads as
  spaces; unlike \<open>strip\<close> it does not skip 0x1C to 0x1F. Between them it reads an optional
  sign and decimal digits, where single underscores may stand between two digits, and it
  raises on more than 4300 digits.
\<close>

definition int_space :: "char \<Rightarrow> bool" where
  "int_space c = (c \<in> set [CHR 0x09, CHR 0x0A, CHR 0x0B, CHR 0x0C, CHR 0x0D, CHR 0x20,
                            CHR 0x85, CHR 0xA0])"

definition int_strip :: "string \<Rightarrow> string" where
  "int_strip x = rev (dropWhile int_space (rev (dropWhile int_space x)))"

fun digits_value :: "int \<Rightarrow> string \<Rightarrow> int option" where
  "digits_value acc [] = Some acc"
| "digits_value acc [c] = (if is_digit c then Some (10 * acc + (int (of_char c) - 48)) else None)"
| "digits_value acc (c # d # cs) =
     (if is_digit c then digits_value (10 * acc + (int (of_char c) - 48)) (d # cs)
      else if c = CHR ''_'' \<and> is_digit d then digits_value acc (d # cs)
      else None)"

definition max_str_digits :: nat where
  "max_str_digits = 4300"

definition unsigned_value :: "string \<Rightarrow> int option" where
  "unsigned_value s =
     (case s of
        [] \<Rightarrow> None
      | c # cs \<Rightarrow>
          if is_digit c \<and> length (filter is_digit s) \<le> max_str_digits then digits_value 0 s
          else None)"

definition decimal_int :: "string \<Rightarrow> int option" where
  "decimal_int x =
     (case int_strip x of
        [] \<Rightarrow> None
      | c # cs \<Rightarrow>
          if c = CHR ''-'' then map_option uminus (unsigned_value cs)
          else if c = CHR ''+'' then unsigned_value cs
          else unsigned_value (c # cs))"


section \<open>The specification's notions\<close>

text \<open>
  The definitions of this section follow the words of the specification; the theorems
  compare them with the definitions above, which follow the source.
\<close>

text \<open>
  The message format of the specification: the literal template, given line by line, with
  the fields substituted and \<open>Not Specified\<close> for an absent optional field.
\<close>

definition join_lines :: "body list \<Rightarrow> body" where
  "join_lines ls = (case ls of [] \<Rightarrow> [] | l # ls' \<Rightarrow> l @ concat (map (\<lambda>x. newline @ x) ls'))"

definition or_not_specified :: "string option \<Rightarrow> string" where
  "or_not_specified v = (case v of None \<Rightarrow> ''Not Specified'' | Some x \<Rightarrow> x)"

definition template ::
  "string \<Rightarrow> string \<Rightarrow> string option \<Rightarrow> string option \<Rightarrow> string option \<Rightarrow> body" where
  "template SYMBOL ACTION ENTRY SL TP =
     join_lines
       [fire @ code_points '' **Forwarded Signal: '' @ code_points SYMBOL @ code_points ''** '' @ fire,
        [],
        code_points ''```'',
        code_points ''Action:      '' @ code_points ACTION,
        code_points ''Entry:       '' @ code_points (or_not_specified ENTRY),
        code_points ''Stop Loss:   '' @ code_points (or_not_specified SL),
        code_points ''Take Profit: '' @ code_points (or_not_specified TP),
        code_points ''```'']"

text \<open>
  A required setting is missing, or one of the three that are numbers does not parse as an
  integer (each item of the comma-separated list of source channels is one).
\<close>

definition missing_or_malformed :: "(string \<Rightarrow> int option) \<Rightarrow> (string \<rightharpoonup> string) \<Rightarrow> bool" where
  "missing_or_malformed to_int env =
     (env ''API_ID'' = None \<or> env ''API_HASH'' = None \<or> env ''SOURCE_CHANNEL_IDS'' = None \<or>
      env ''DESTINATION_CHANNEL_ID'' = None \<or>
      (\<exists>v. env ''API_ID'' = Some v \<and> to_int v = None) \<or>
      (\<exists>v. env ''SOURCE_CHANNEL_IDS'' = Some v \<and>
           (\<exists>x \<in> set (split_comma v). to_int (strip x) = None)) \<or>
      (\<exists>v. env ''DESTINATION_CHANNEL_ID'' = Some v \<and> to_int v = None))"

text \<open>
  The gating rule in the words of the specification: somewhere in the text stands an action
  token (\<open>BUY\<close> or \<open>SELL\<close>, in any letter case), then whitespace or nothing, then an
  instrument token, which is 3 to 6 letters, a \<open>/\<close> and 3 to 6 letters, or one of the bare
  symbols \<open>XAUUSD\<close>, \<open>GBPUSD\<close> and \<open>EURUSD\<close> in any letter case.
\<close>

definition is_action_token :: "string \<Rightarrow> bool" where
  "is_action_token a = (upper a = ''BUY'' \<or> upper a = ''SELL'')"

definition is_letters_3_to_6 :: "string \<Rightarrow> bool" where
  "is_letters_3_to_6 u = (3 \<le> length u \<and> length u \<le> 6 \<and> list_all is_letter u)"

definition is_instrument_token :: "string \<Rightarrow> bool" where
  "is_instrument_token y =
     ((\<exists>u v. y = u @ ''/'' @ v \<and> is_letters_3_to_6 u \<and> is_letters_3_to_6 v) \<or>
      upper y = ''XAUUSD'' \<or> upper y = ''GBPUSD'' \<or> upper y = ''EURUSD'')"

definition action_then_instrument :: "string \<Rightarrow> bool" where
  "action_then_instrument s =
     (\<exists>pre a ws y post. s = pre @ a @ ws @ y @ post \<and>
        is_action_token a \<and> list_all is_space ws \<and> is_instrument_token y)"

text \<open>
  A decimal number, read generously: digits with at most one point among them, and at
  least one digit.
\<close>

definition is_decimal_number :: "string \<Rightarrow> bool" where
  "is_decimal_number v =
     (list_all is_digit_or_dot v \<and> list_ex is_digit v \<and> length (filter (\<lambda>c. c = CHR ''.'') v) \<le> 1)"

section \<open>A notion for the proofs\<close>

text \<open>
  A regular expression is blind to letter case when lowering the case of the input lowers
  the case of its matches and changes nothing else.
\<close>

definition case_blind :: "regex \<Rightarrow> bool" where
  "case_blind r =
     (\<forall>s. r (map to_lower s) = map (map_prod (map to_lower) (map to_lower)) (r s))"


section \<open>The record of the extractor\<close>

lemma map_of_set_group2:
  "map_of (set_group2 k m t) k' =
     (if k' = k then (case m of None \<Rightarrow> map_of t k | Some (g, v) \<Rightarrow> Some v) else map_of t k')"
  by (cases m) (auto simp: set_group2_def update_conv')

lemma parse_None_iff: "parse_trade_signal s = None \<longleftrightarrow> search action_pattern s = None"
  by (auto simp: parse_trade_signal_def Let_def map_of_set_group2 update_conv' split: option.splits)

text \<open>Every field of a returned record, read off the four searches.\<close>

lemma parse_lookup:
  assumes "parse_trade_signal s = Some t"
  shows "map_of t k =
     (if k = ''action'' then map_option (\<lambda>(g1, g2). upper g1) (search action_pattern s)
      else if k = ''symbol'' then
        map_option (\<lambda>(g1, g2). filter (\<lambda>c. c \<noteq> CHR ''/'') (upper g2)) (search action_pattern s)
      else if k = ''entry'' then map_option snd (search entry_pattern s)
      else if k = ''tp'' then map_option snd (search tp_pattern s)
      else if k = ''sl'' then map_option snd (search sl_pattern s)
      else None)"
proof -
  obtain g1 g2 where a: "search action_pattern s = Some (g1, g2)"
    using assms parse_None_iff [of s] by (cases "search action_pattern s") auto
  have t: "t = set_group2 ''sl'' (search sl_pattern s)
              (set_group2 ''tp'' (search tp_pattern s)
                (set_group2 ''entry'' (search entry_pattern s)
                  [(''action'', upper g1), (''symbol'', filter (\<lambda>c. c \<noteq> CHR ''/'') (upper g2))]))"
    using assms a by (simp add: parse_trade_signal_def Let_def split: if_splits)
  show ?thesis
    unfolding t a by (auto simp: map_of_set_group2 split: option.splits)
qed

lemma parse_Some_nonempty: "parse_trade_signal s = Some t \<Longrightarrow> t \<noteq> []"
  using parse_lookup [of s t "''action''"] parse_None_iff [of s] by auto

lemma parse_nil: "parse_trade_signal [] = None"
  by code_simp

lemma parse_good_morning: "parse_trade_signal ''good morning traders'' = None"
  by code_simp

lemma parse_buy_eurusd:
  "parse_trade_signal ''BUY EURUSD'' = Some [(''action'', ''BUY''), (''symbol'', ''EURUSD'')]"
  by code_simp

lemma parse_scenario:
  "parse_trade_signal ''BUY GBPUSD Entry: 1.2650 SL 1.2600 TP 1.2750'' =
     Some [(''action'', ''BUY''), (''symbol'', ''GBPUSD''), (''entry'', ''1.2650''),
           (''tp'', ''1.2750''), (''sl'', ''1.2600'')]"
  by code_simp


section \<open>Letters and their cases\<close>

lemma not_letter_case: "\<not> is_letter c \<Longrightarrow> to_lower c = c \<and> to_upper c = c"
  by (simp add: is_letter_def to_lower_def to_upper_def uppers_def lowers_def)

lemma lower_table: "map to_lower uppers = lowers" "map to_lower lowers = lowers"
  by (simp_all add: to_lower_def uppers_def lowers_def)

lemma upper_table: "map to_upper lowers = uppers" "map to_upper uppers = uppers"
  by (simp_all add: to_upper_def uppers_def lowers_def)

lemma letters_no_space: "filter is_space (uppers @ lowers) = []"
  by (simp add: uppers_def lowers_def is_space_def)

lemma letters_no_digit: "filter is_digit_or_dot (uppers @ lowers) = []"
  by (simp add: uppers_def lowers_def is_digit_or_dot_def is_digit_def)

lemma letters_no_slash: "CHR ''/'' \<notin> set (uppers @ lowers) \<and> CHR '':'' \<notin> set (uppers @ lowers)"
  by (simp add: uppers_def lowers_def)

lemma lower_image: "to_lower ` set (uppers @ lowers) = set lowers"
proof -
  have "to_lower ` set (uppers @ lowers) = set (map to_lower (uppers @ lowers))"
    by (simp only: set_map)
  also have "\<dots> = set lowers"
    by (simp only: map_append lower_table set_append Un_absorb)
  finally show ?thesis .
qed

lemma upper_image: "to_upper ` set (uppers @ lowers) = set uppers"
proof -
  have "to_upper ` set (uppers @ lowers) = set (map to_upper (uppers @ lowers))"
    by (simp only: set_map)
  also have "\<dots> = set uppers"
    by (simp only: map_append upper_table set_append Un_absorb)
  finally show ?thesis .
qed

lemma letter_lower: "is_letter c \<Longrightarrow> to_lower c \<in> set lowers"
  using lower_image by (auto simp: is_letter_def)

lemma letter_upper: "is_letter c \<Longrightarrow> to_upper c \<in> set uppers"
  using upper_image by (auto simp: is_letter_def)

lemma upper_of_lower [simp]: "to_upper (to_lower c) = to_upper c"
proof (cases "is_letter c")
  case True
  have "map (to_upper \<circ> to_lower) (uppers @ lowers) = map to_upper (uppers @ lowers)"
    by (simp add: lower_table upper_table flip: map_map)
  moreover have "c \<in> set (uppers @ lowers)" using True by (simp add: is_letter_def)
  ultimately show ?thesis by (simp only: map_eq_conv comp_apply)
next
  case False
  then show ?thesis by (simp add: not_letter_case)
qed

lemma lower_of_upper [simp]: "to_lower (to_upper c) = to_lower c"
proof (cases "is_letter c")
  case True
  have "map (to_lower \<circ> to_upper) (uppers @ lowers) = map to_lower (uppers @ lowers)"
    by (simp add: lower_table upper_table flip: map_map)
  moreover have "c \<in> set (uppers @ lowers)" using True by (simp add: is_letter_def)
  ultimately show ?thesis by (simp only: map_eq_conv comp_apply)
next
  case False
  then show ?thesis by (simp add: not_letter_case)
qed

lemma is_letter_lower [simp]: "is_letter (to_lower c) = is_letter c"
proof (cases "is_letter c")
  case True
  then show ?thesis using letter_lower [of c] by (simp add: is_letter_def)
next
  case False
  then show ?thesis by (simp add: not_letter_case)
qed

lemma is_letter_upper [simp]: "is_letter (to_upper c) = is_letter c"
proof (cases "is_letter c")
  case True
  then show ?thesis using letter_upper [of c] by (simp add: is_letter_def)
next
  case False
  then show ?thesis by (simp add: not_letter_case)
qed

lemma lower_idem [simp]: "to_lower (to_lower c) = to_lower c"
  by (metis lower_of_upper upper_of_lower)

lemma upper_idem [simp]: "to_upper (to_upper c) = to_upper c"
  by (metis lower_of_upper upper_of_lower)

lemma letter_classes:
  assumes "is_letter c"
  shows "\<not> is_space c" and "\<not> is_digit_or_dot c" and "\<not> is_colon_or_space c"
    and "c \<noteq> CHR ''/''"
proof -
  have c: "c \<in> set (uppers @ lowers)" using assms by (simp add: is_letter_def)
  show 1: "\<not> is_space c"
    using c letters_no_space by (metis filter_empty_conv)
  show "\<not> is_digit_or_dot c"
    using c letters_no_digit by (metis filter_empty_conv)
  show "\<not> is_colon_or_space c"
    using c 1 letters_no_slash by (auto simp: is_colon_or_space_def)
  show "c \<noteq> CHR ''/''"
    using c letters_no_slash by auto
qed

lemma lower_eq_iff_upper_eq: "to_lower c = to_lower d \<longleftrightarrow> to_upper c = to_upper d"
  by (metis upper_of_lower lower_of_upper)

lemma same_lower_not_letter: "to_lower c = to_lower d \<Longrightarrow> \<not> is_letter c \<Longrightarrow> d = c"
  by (metis is_letter_lower not_letter_case)

lemma class_lower [simp]:
  "is_space (to_lower c) = is_space c"
  "is_digit_or_dot (to_lower c) = is_digit_or_dot c"
  "is_colon_or_space (to_lower c) = is_colon_or_space c"
  using letter_classes [of c] letter_classes [of "to_lower c"] not_letter_case [of c]
  by (cases "is_letter c"; simp)+

lemma upper_eq_iff: "upper m = upper p \<longleftrightarrow> map to_lower m = map to_lower p"
proof (induction m arbitrary: p)
  case Nil
  then show ?case by (simp add: upper_def)
next
  case (Cons a m)
  then show ?case by (cases p) (auto simp: upper_def lower_eq_iff_upper_eq)
qed

lemma upper_lower [simp]: "upper (map to_lower m) = upper m"
  by (simp add: upper_def)

section \<open>What the regular expressions match\<close>

lemma lit_closed:
  "lit p s =
     (if length p \<le> length s \<and> map to_lower (take (length p) s) = map to_lower p
      then [(take (length p) s, drop (length p) s)] else [])"
  by (induction p s rule: lit.induct) auto

lemma lit_in: "(m, r) \<in> set (lit p s) \<longleftrightarrow> s = m @ r \<and> map to_lower m = map to_lower p"
proof
  assume "(m, r) \<in> set (lit p s)"
  then have "m = take (length p) s" "r = drop (length p) s"
    "map to_lower (take (length p) s) = map to_lower p"
    by (auto simp: lit_closed split: if_splits)
  then show "s = m @ r \<and> map to_lower m = map to_lower p" by simp
next
  assume a: "s = m @ r \<and> map to_lower m = map to_lower p"
  then have "length m = length p" by (metis length_map)
  with a show "(m, r) \<in> set (lit p s)" by (simp add: lit_closed)
qed

lemma lit_append: "map to_lower m = map to_lower p \<Longrightarrow> lit p (m @ r) = [(m, r)]"
proof -
  assume a: "map to_lower m = map to_lower p"
  then have "length m = length p" by (metis length_map)
  with a show ?thesis by (simp add: lit_closed)
qed

lemma lit_empty: "lit p s = [] \<longleftrightarrow> \<not> (\<exists>m r. s = m @ r \<and> map to_lower m = map to_lower p)"
  using lit_in [of _ _ p s] by (metis list.set_intros(1) neq_Nil_conv surj_pair empty_iff empty_set)

lemma greedy_in:
  "(m, r) \<in> set (greedy P n s) \<longleftrightarrow> s = m @ r \<and> length m \<le> n \<and> (\<forall>c \<in> set m. P c)"
proof (induction P n s arbitrary: m r rule: greedy.induct)
  case (1 P s)
  then show ?case by auto
next
  case (2 P n)
  then show ?case by auto
next
  case (3 P n c cs)
  show ?case
  proof (cases "P c")
    case True
    show ?thesis
    proof (cases m)
      case Nil
      then show ?thesis using True by auto
    next
      case (Cons a m')
      then show ?thesis using True 3 [of m' r] by auto
    qed
  next
    case False
    then show ?thesis by (cases m) auto
  qed
qed

lemma greedy_hd:
  assumes "\<forall>c \<in> set ws. P c" and "length ws \<le> n"
    and "length ws = n \<or> rest = [] \<or> \<not> P (hd rest)"
  shows "\<exists>xs. greedy P n (ws @ rest) = (ws, rest) # xs"
  using assms
proof (induction ws arbitrary: n)
  case Nil
  then show ?case
    by (cases n; cases rest) auto
next
  case (Cons a ws)
  then obtain n' where n: "n = Suc n'" by (cases n) auto
  from Cons.prems n have "\<exists>xs. greedy P n' (ws @ rest) = (ws, rest) # xs"
    by (intro Cons.IH) auto
  then show ?case using Cons.prems n by auto
qed

lemma reps_in:
  "(m, r) \<in> set (reps P lo hi s) \<longleftrightarrow>
     s = m @ r \<and> lo \<le> length m \<and> length m \<le> hi \<and> (\<forall>c \<in> set m. P c)"
  by (auto simp: reps_def greedy_in)

lemma reps_hd:
  assumes "\<forall>c \<in> set ws. P c" and "lo \<le> length ws" and "length ws \<le> hi"
    and "length ws = hi \<or> rest = [] \<or> \<not> P (hd rest)"
  shows "\<exists>xs. reps P lo hi (ws @ rest) = (ws, rest) # xs"
proof -
  obtain xs where "greedy P hi (ws @ rest) = (ws, rest) # xs"
    using greedy_hd [OF assms(1,3,4)] by blast
  then show ?thesis using assms(2) by (simp add: reps_def)
qed

lemma star_in: "(m, r) \<in> set (star P s) \<longleftrightarrow> s = m @ r \<and> (\<forall>c \<in> set m. P c)"
  by (auto simp: star_def reps_in)

lemma plus_in: "(m, r) \<in> set (plus P s) \<longleftrightarrow> s = m @ r \<and> m \<noteq> [] \<and> (\<forall>c \<in> set m. P c)"
  by (cases m) (auto simp: plus_def reps_in)

lemma star_hd:
  assumes "\<forall>c \<in> set ws. P c" and "rest = [] \<or> \<not> P (hd rest)"
  shows "\<exists>xs. star P (ws @ rest) = (ws, rest) # xs"
  unfolding star_def using assms by (intro reps_hd) auto

lemma plus_hd:
  assumes "\<forall>c \<in> set ws. P c" and "ws \<noteq> []" and "rest = [] \<or> \<not> P (hd rest)"
  shows "\<exists>xs. plus P (ws @ rest) = (ws, rest) # xs"
  unfolding plus_def using assms by (intro reps_hd) (auto simp: Suc_le_eq)

lemma alt_in: "x \<in> set (alt a b s) \<longleftrightarrow> x \<in> set (a s) \<or> x \<in> set (b s)"
  by (simp add: alt_def)

lemma seq_in:
  "(m, r) \<in> set (seq a b s) \<longleftrightarrow>
     (\<exists>m1 r1 m2. (m1, r1) \<in> set (a s) \<and> (m2, r) \<in> set (b r1) \<and> m = m1 @ m2)"
  by (force simp: seq_def)

lemma two_groups_in:
  "(x, y) \<in> set (two_groups g1 mid g2 s) \<longleftrightarrow>
     (\<exists>r1 m r r2. (x, r1) \<in> set (g1 s) \<and> (m, r) \<in> set (mid r1) \<and> (y, r2) \<in> set (g2 r))"
  by (force simp: two_groups_def)

lemma seq_hd:
  assumes "a s = (m1, r1) # xs" and "b r1 = (m2, r2) # ys"
  shows "\<exists>zs. seq a b s = (m1 @ m2, r2) # zs"
  using assms by (simp add: seq_def)

lemma two_groups_hd:
  assumes "g1 s = (m1, r1) # xs" and "mid r1 = (m, r) # ys" and "g2 r = (m2, r2) # zs"
  shows "\<exists>us. two_groups g1 mid g2 s = (m1, m2) # us"
  using assms by (simp add: two_groups_def)

section \<open>Searching a text\<close>

lemma search_here: "p s = x # xs \<Longrightarrow> search p s = Some x"
  by (cases s) simp_all

lemma search_skip:
  "\<forall>j < length pre. p (drop j pre @ rest) = [] \<Longrightarrow> search p (pre @ rest) = search p rest"
proof (induction pre)
  case Nil
  then show ?case by simp
next
  case (Cons a pre)
  have "p (a # pre @ rest) = []" using Cons.prems [rule_format, of 0] by simp
  moreover have "\<forall>j < length pre. p (drop j pre @ rest) = []"
    using Cons.prems by (metis Suc_less_eq drop_Suc_Cons length_Cons)
  ultimately show ?case using Cons.IH by simp
qed

lemma search_leftmost:
  assumes "p rest = x # xs" and "\<forall>j < length pre. p (drop j pre @ rest) = []"
  shows "search p (pre @ rest) = Some x"
  using search_skip [OF assms(2)] search_here [of p rest x xs] assms(1) by simp

lemma search_None_iff: "search p s = None \<longleftrightarrow> (\<forall>pre rest. s = pre @ rest \<longrightarrow> p rest = [])"
proof (induction s)
  case Nil
  then show ?case by (auto split: list.splits)
next
  case (Cons a s)
  show ?case
  proof
    assume n: "search p (a # s) = None"
    then have h: "p (a # s) = []" and t: "search p s = None"
      by (auto split: list.splits)
    show "\<forall>pre rest. a # s = pre @ rest \<longrightarrow> p rest = []"
    proof (intro allI impI)
      fix pre rest assume e: "a # s = pre @ rest"
      show "p rest = []"
      proof (cases pre)
        case Nil
        then show ?thesis using e h by simp
      next
        case (Cons b pre')
        then have "s = pre' @ rest" using e by simp
        then show ?thesis using t Cons.IH by blast
      qed
    qed
  next
    assume a: "\<forall>pre rest. a # s = pre @ rest \<longrightarrow> p rest = []"
    then have "p (a # s) = []" by (metis append_Nil)
    moreover have "\<forall>pre rest. s = pre @ rest \<longrightarrow> p rest = []"
      using a by (metis append_Cons)
    ultimately show "search p (a # s) = None" using Cons.IH by simp
  qed
qed

lemma search_Some_D:
  assumes "search p s = Some x"
  shows "\<exists>pre rest xs. s = pre @ rest \<and> p rest = x # xs \<and>
           (\<forall>j < length pre. p (drop j pre @ rest) = [])"
  using assms
proof (induction s)
  case Nil
  then have "\<exists>xs. p [] = x # xs" by (auto split: list.splits)
  then show ?case by auto
next
  case (Cons a s)
  show ?case
  proof (cases "p (a # s)")
    case Nil
    then have "search p s = Some x" using Cons.prems by simp
    then obtain pre rest xs where s: "s = pre @ rest" and r: "p rest = x # xs"
      and l: "\<forall>j < length pre. p (drop j pre @ rest) = []"
      using Cons.IH by blast
    have "\<forall>j < length (a # pre). p (drop j (a # pre) @ rest) = []"
    proof (intro allI impI)
      fix j assume j: "j < length (a # pre)"
      show "p (drop j (a # pre) @ rest) = []"
      proof (cases j)
        case 0
        then show ?thesis using Nil s by simp
      next
        case (Suc k)
        then show ?thesis using j l by simp
      qed
    qed
    then show ?thesis using s r by (metis append_Cons)
  next
    case (Cons y ys)
    then have "x = y" using Cons.prems by simp
    then have "a # s = [] @ (a # s) \<and> p (a # s) = x # ys \<and>
               (\<forall>j < length ([]::string). p (drop j [] @ (a # s)) = [])"
      using Cons by simp
    then show ?thesis by blast
  qed
qed

section \<open>What the action pattern matches\<close>

lemma upper_is_letter: "to_upper c = x \<Longrightarrow> is_letter x \<Longrightarrow> is_letter c"
  using is_letter_upper [of c] by simp

lemma upper_not_letter: "to_upper c = x \<Longrightarrow> \<not> is_letter x \<Longrightarrow> c = x"
  using is_letter_upper [of c] not_letter_case [of c] by auto

lemma lit_in_upper:
  assumes "upper p = p"
  shows "(m, r) \<in> set (lit p s) \<longleftrightarrow> s = m @ r \<and> upper m = p"
  using lit_in [of m r p s] upper_eq_iff [of m p] assms by simp

lemma upper_literals:
  "upper ''BUY'' = ''BUY''" "upper ''SELL'' = ''SELL''" "upper ''/'' = ''/''"
  "upper ''XAUUSD'' = ''XAUUSD''" "upper ''XAU/USD'' = ''XAU/USD''"
  "upper ''GBPUSD'' = ''GBPUSD''" "upper ''EURUSD'' = ''EURUSD''"
  by (simp_all add: upper_def to_upper_def lowers_def uppers_def)

lemma capital_letters:
  "is_letter CHR ''X''" "is_letter CHR ''A''" "is_letter CHR ''U''" "is_letter CHR ''S''"
  "is_letter CHR ''D''" "is_letter CHR ''E''" "is_letter CHR ''R''" "is_letter CHR ''G''"
  "is_letter CHR ''B''" "is_letter CHR ''P''" "\<not> is_letter CHR ''/''" "\<not> is_letter CHR '' ''"
  by (simp_all add: is_letter_def uppers_def lowers_def)

lemma upper_slash: "upper m = ''/'' \<longleftrightarrow> m = ''/''"
proof
  assume "upper m = ''/''"
  then obtain c where "m = [c]" and "to_upper c = CHR ''/''"
    by (auto simp: upper_def map_eq_Cons_conv)
  then show "m = ''/''" using upper_not_letter [OF _ capital_letters(11)] by simp
next
  assume "m = ''/''"
  then show "upper m = ''/''" by (simp only: upper_literals)
qed

lemma xau_usd_is_pair:
  assumes "upper y = ''XAU/USD''"
  shows "\<exists>u v. y = u @ ''/'' @ v \<and> is_letters_3_to_6 u \<and> is_letters_3_to_6 v"
proof -
  from assms obtain c1 c2 c3 c4 c5 c6 c7 where y: "y = [c1, c2, c3, c4, c5, c6, c7]"
    and u: "to_upper c1 = CHR ''X''" "to_upper c2 = CHR ''A''" "to_upper c3 = CHR ''U''"
      "to_upper c4 = CHR ''/''" "to_upper c5 = CHR ''U''" "to_upper c6 = CHR ''S''"
      "to_upper c7 = CHR ''D''"
    by (auto simp: upper_def map_eq_Cons_conv)
  have "c4 = CHR ''/''" using u(4) capital_letters(11) by (rule upper_not_letter)
  moreover have "is_letters_3_to_6 [c1, c2, c3]"
    using u capital_letters by (auto simp: is_letters_3_to_6_def intro: upper_is_letter)
  moreover have "is_letters_3_to_6 [c5, c6, c7]"
    using u capital_letters by (auto simp: is_letters_3_to_6_def intro: upper_is_letter)
  ultimately have "y = [c1, c2, c3] @ ''/'' @ [c5, c6, c7] \<and> is_letters_3_to_6 [c1, c2, c3] \<and>
      is_letters_3_to_6 [c5, c6, c7]"
    using y by simp
  then show ?thesis by blast
qed

lemma letters_in: "(m, r) \<in> set (reps is_letter 3 6 s) \<longleftrightarrow> s = m @ r \<and> is_letters_3_to_6 m"
  by (auto simp: reps_in is_letters_3_to_6_def list_all_iff)

lemma instrument_in: "(y, r) \<in> set (instrument s) \<longleftrightarrow> s = y @ r \<and> is_instrument_token y"
proof
  assume "(y, r) \<in> set (instrument s)"
  then consider (pair) "(y, r) \<in> set (seq (reps is_letter 3 6) (seq (lit ''/'') (reps is_letter 3 6)) s)"
    | (lit) p where "p \<in> {''XAUUSD'', ''XAU/USD'', ''GBPUSD'', ''EURUSD''}" "(y, r) \<in> set (lit p s)"
    by (auto simp: instrument_def alt_in)
  then show "s = y @ r \<and> is_instrument_token y"
  proof cases
    case pair
    then obtain u v w where "s = u @ w @ v @ r" "y = u @ w @ v" "is_letters_3_to_6 u"
      "is_letters_3_to_6 v" "upper w = ''/''"
      by (auto simp: seq_in letters_in lit_in_upper upper_literals)
    then show ?thesis by (auto simp: is_instrument_token_def upper_slash)
  next
    case lit
    then have "s = y @ r" "upper y = p"
      by (auto simp: lit_in_upper upper_literals)
    then show ?thesis using lit(1) xau_usd_is_pair [of y]
      by (auto simp: is_instrument_token_def)
  qed
next
  assume a: "s = y @ r \<and> is_instrument_token y"
  then consider (pair) u v where "y = u @ ''/'' @ v" "is_letters_3_to_6 u" "is_letters_3_to_6 v"
    | (lit) "upper y = ''XAUUSD'' \<or> upper y = ''GBPUSD'' \<or> upper y = ''EURUSD''"
    by (auto simp: is_instrument_token_def)
  then show "(y, r) \<in> set (instrument s)"
  proof cases
    case pair
    have "(v, r) \<in> set (reps is_letter 3 6 (v @ r))" using pair by (simp add: letters_in)
    then have "(''/'' @ v, r) \<in> set (seq (lit ''/'') (reps is_letter 3 6) (''/'' @ v @ r))"
      unfolding seq_in by (metis lit_in append_assoc)
    moreover have "(u, ''/'' @ v @ r) \<in> set (reps is_letter 3 6 (u @ ''/'' @ v @ r))"
      using pair by (simp add: letters_in)
    ultimately have "(u @ ''/'' @ v, r) \<in>
        set (seq (reps is_letter 3 6) (seq (lit ''/'') (reps is_letter 3 6)) (u @ ''/'' @ v @ r))"
      unfolding seq_in [of _ _ "reps is_letter 3 6"] by blast
    then show ?thesis using a pair by (simp add: instrument_def alt_in)
  next
    case lit
    then show ?thesis using a
      by (auto simp: instrument_def alt_in lit_in_upper upper_literals)
  qed
qed

lemma action_pattern_in:
  "(a, y) \<in> set (action_pattern s) \<longleftrightarrow>
     (\<exists>ws post. s = a @ ws @ y @ post \<and> is_action_token a \<and> list_all is_space ws \<and>
        is_instrument_token y)"
proof -
  have g1: "(a, r1) \<in> set (alt (lit ''BUY'') (lit ''SELL'') s) \<longleftrightarrow> s = a @ r1 \<and> is_action_token a"
    for r1
    by (auto simp: alt_in lit_in_upper upper_literals is_action_token_def)
  have mid: "(m, r) \<in> set (star is_space r1) \<longleftrightarrow> r1 = m @ r \<and> list_all is_space m" for m r r1
    by (simp add: star_in list_all_iff)
  show ?thesis
    unfolding action_pattern_def two_groups_in g1 mid instrument_in
    by (metis append_assoc)
qed

lemma action_pattern_somewhere:
  "(\<exists>pre rest. s = pre @ rest \<and> action_pattern rest \<noteq> []) \<longleftrightarrow> action_then_instrument s"
proof
  assume "\<exists>pre rest. s = pre @ rest \<and> action_pattern rest \<noteq> []"
  then obtain pre rest a y where "s = pre @ rest" "(a, y) \<in> set (action_pattern rest)"
    by (metis list.set_intros(1) neq_Nil_conv surj_pair)
  then show "action_then_instrument s"
    unfolding action_pattern_in action_then_instrument_def by blast
next
  assume "action_then_instrument s"
  then obtain pre a ws y post where "s = pre @ a @ ws @ y @ post" "is_action_token a"
    "list_all is_space ws" "is_instrument_token y"
    unfolding action_then_instrument_def by blast
  then have "(a, y) \<in> set (action_pattern (a @ ws @ y @ post))" "s = pre @ (a @ ws @ y @ post)"
    unfolding action_pattern_in by blast+
  then show "\<exists>pre rest. s = pre @ rest \<and> action_pattern rest \<noteq> []"
    by (metis empty_iff empty_set)
qed

lemma search_action_None_iff: "search action_pattern s = None \<longleftrightarrow> \<not> action_then_instrument s"
  unfolding search_None_iff action_pattern_somewhere [symmetric] by blast

section \<open>The values of the optional fields\<close>

text \<open>A regular expression consumes what it matches: the match and the rest make up the input.\<close>

lemma lit_consumes: "(m, r) \<in> set (lit p s) \<Longrightarrow> s = m @ r"
  by (simp add: lit_in)

lemma star_consumes: "(m, r) \<in> set (star P s) \<Longrightarrow> s = m @ r"
  by (simp add: star_in)

lemma alt_consumes:
  assumes "\<And>s m r. (m, r) \<in> set (a s) \<Longrightarrow> s = m @ r"
    and "\<And>s m r. (m, r) \<in> set (b s) \<Longrightarrow> s = m @ r"
  shows "(m, r) \<in> set (alt a b s) \<Longrightarrow> s = m @ r"
  using assms by (auto simp: alt_in)

lemma seq_consumes:
  assumes "\<And>s m r. (m, r) \<in> set (a s) \<Longrightarrow> s = m @ r"
    and "\<And>s m r. (m, r) \<in> set (b s) \<Longrightarrow> s = m @ r"
  shows "(m, r) \<in> set (seq a b s) \<Longrightarrow> s = m @ r"
  using assms by (fastforce simp: seq_in)

lemma separator_consumes: "(m, r) \<in> set (separator s) \<Longrightarrow> s = m @ r"
  unfolding separator_def by (rule seq_consumes [OF star_consumes star_consumes])

lemma two_groups_value:
  assumes "\<And>s m r. (m, r) \<in> set (g1 s) \<Longrightarrow> s = m @ r"
    and "(x, v) \<in> set (two_groups g1 separator (plus P) s)"
  shows "v \<noteq> [] \<and> list_all P v \<and> (\<exists>u w. s = u @ v @ w)"
proof -
  obtain r1 m r r2 where 1: "(x, r1) \<in> set (g1 s)" and 2: "(m, r) \<in> set (separator r1)"
    and 3: "(v, r2) \<in> set (plus P r)"
    using assms(2) unfolding two_groups_in by blast
  have "s = x @ r1" using 1 by (rule assms(1))
  moreover have "r1 = m @ r" using 2 by (rule separator_consumes)
  moreover have "r = v @ r2" "v \<noteq> []" "list_all P v" using 3 by (auto simp: plus_in list_all_iff)
  ultimately have "s = (x @ m) @ v @ r2" by simp
  then show ?thesis using \<open>v \<noteq> []\<close> \<open>list_all P v\<close> by blast
qed

lemma entry_label_consumes:
  "(m, r) \<in> set (alt (lit ''Entry'') (alt (lit ''Enter'') (lit ''En'')) s) \<Longrightarrow> s = m @ r"
  by (rule alt_consumes [OF lit_consumes alt_consumes [OF lit_consumes lit_consumes]])

lemma tp_label_consumes:
  "(m, r) \<in> set (alt (lit ''TP'') (seq (lit ''Take'') (seq (star is_space) (lit ''Profit''))) s)
     \<Longrightarrow> s = m @ r"
  by (rule alt_consumes [OF lit_consumes
        seq_consumes [OF lit_consumes seq_consumes [OF star_consumes lit_consumes]]])

lemma sl_label_consumes:
  "(m, r) \<in> set (alt (lit ''SL'') (seq (lit ''Stop'') (seq (star is_space) (lit ''Loss''))) s)
     \<Longrightarrow> s = m @ r"
  by (rule alt_consumes [OF lit_consumes
        seq_consumes [OF lit_consumes seq_consumes [OF star_consumes lit_consumes]]])

lemma field_pattern_value:
  assumes "p = entry_pattern \<or> p = tp_pattern \<or> p = sl_pattern" and "(x, v) \<in> set (p s)"
  shows "v \<noteq> [] \<and> list_all is_digit_or_dot v \<and> (\<exists>u w. s = u @ v @ w)"
  using assms two_groups_value [OF entry_label_consumes, where x = x and v = v and P = is_digit_or_dot and s = s]
    two_groups_value [OF tp_label_consumes, where x = x and v = v and P = is_digit_or_dot and s = s]
    two_groups_value [OF sl_label_consumes, where x = x and v = v and P = is_digit_or_dot and s = s]
  unfolding entry_pattern_def tp_pattern_def sl_pattern_def by blast

lemma search_member:
  assumes "search p s = Some x"
  shows "\<exists>pre rest. s = pre @ rest \<and> x \<in> set (p rest)"
  using search_Some_D [OF assms] by (metis list.set_intros(1))

lemma field_search_value:
  assumes "p = entry_pattern \<or> p = tp_pattern \<or> p = sl_pattern" and "search p s = Some (x, v)"
  shows "v \<noteq> [] \<and> list_all is_digit_or_dot v \<and> sublist v s"
proof -
  obtain pre rest where s: "s = pre @ rest" and m: "(x, v) \<in> set (p rest)"
    using search_member [OF assms(2)] by blast
  from field_pattern_value [OF assms(1) m]
  obtain u w where "v \<noteq> []" "list_all is_digit_or_dot v" "rest = u @ v @ w" by blast
  moreover from this s have "s = (pre @ u) @ v @ w" by simp
  ultimately show ?thesis unfolding sublist_def by blast
qed

section \<open>Letter case does not matter\<close>

lemma lower_comp [simp]: "to_lower \<circ> to_lower = to_lower"
  by (rule ext) simp

lemma lit_blind: "case_blind (lit p)"
  by (simp add: case_blind_def lit_closed take_map drop_map)

lemma greedy_lower:
  "\<forall>c. P (to_lower c) = P c \<Longrightarrow>
   greedy P n (map to_lower s) = map (map_prod (map to_lower) (map to_lower)) (greedy P n s)"
  by (induction P n s rule: greedy.induct) (auto simp: split_def)

lemma reps_blind:
  assumes "\<forall>c. P (to_lower c) = P c"
  shows "reps P lo hi (map to_lower s) =
           map (map_prod (map to_lower) (map to_lower)) (reps P lo hi s)"
  using greedy_lower [of P hi s] assms
  by (simp add: reps_def filter_map comp_def split_def)

lemma star_blind: "\<forall>c. P (to_lower c) = P c \<Longrightarrow> case_blind (star P)"
  by (simp add: case_blind_def star_def reps_blind)

lemma plus_blind: "\<forall>c. P (to_lower c) = P c \<Longrightarrow> case_blind (plus P)"
  by (simp add: case_blind_def plus_def reps_blind)

lemma letters_blind: "case_blind (reps is_letter lo hi)"
  by (simp add: case_blind_def reps_blind)

lemma alt_blind: "case_blind a \<Longrightarrow> case_blind b \<Longrightarrow> case_blind (alt a b)"
  by (simp add: case_blind_def alt_def)

lemma seq_blind: "case_blind a \<Longrightarrow> case_blind b \<Longrightarrow> case_blind (seq a b)"
  by (simp add: case_blind_def seq_def map_concat comp_def split_def)

lemma two_groups_blind:
  assumes "case_blind g1" "case_blind mid" "case_blind g2"
  shows "two_groups g1 mid g2 (map to_lower s) =
           map (map_prod (map to_lower) (map to_lower)) (two_groups g1 mid g2 s)"
  using assms by (simp add: case_blind_def two_groups_def map_concat comp_def split_def)

lemma search_lower:
  assumes "\<And>s. p (map to_lower s) = map f (p s)"
  shows "search p (map to_lower s) = map_option f (search p s)"
proof (induction s)
  case Nil
  then show ?case using assms [of "[]"] by (auto split: list.splits)
next
  case (Cons a s)
  then show ?case using assms [of "a # s"] by (auto split: list.splits)
qed

lemma separator_blind: "case_blind separator"
  unfolding separator_def by (intro seq_blind star_blind) simp_all

lemma instrument_blind: "case_blind instrument"
  unfolding instrument_def by (intro alt_blind seq_blind lit_blind letters_blind)

lemma patterns_blind:
  assumes "p = action_pattern \<or> p = entry_pattern \<or> p = tp_pattern \<or> p = sl_pattern"
  shows "p (map to_lower s) = map (map_prod (map to_lower) (map to_lower)) (p s)"
proof -
  have v: "case_blind (plus is_digit_or_dot)" by (intro plus_blind) simp
  have s: "case_blind (star is_space)" by (intro star_blind) simp
  have "action_pattern (map to_lower s) =
          map (map_prod (map to_lower) (map to_lower)) (action_pattern s)"
    unfolding action_pattern_def
    by (intro two_groups_blind alt_blind lit_blind s instrument_blind)
  moreover have "entry_pattern (map to_lower s) =
          map (map_prod (map to_lower) (map to_lower)) (entry_pattern s)"
    unfolding entry_pattern_def
    by (intro two_groups_blind alt_blind lit_blind separator_blind v)
  moreover have "tp_pattern (map to_lower s) =
          map (map_prod (map to_lower) (map to_lower)) (tp_pattern s)"
    unfolding tp_pattern_def
    by (intro two_groups_blind alt_blind seq_blind lit_blind s separator_blind v)
  moreover have "sl_pattern (map to_lower s) =
          map (map_prod (map to_lower) (map to_lower)) (sl_pattern s)"
    unfolding sl_pattern_def
    by (intro two_groups_blind alt_blind seq_blind lit_blind s separator_blind v)
  ultimately show ?thesis using assms by blast
qed

lemma search_pattern_lower:
  assumes "p = action_pattern \<or> p = entry_pattern \<or> p = tp_pattern \<or> p = sl_pattern"
  shows "search p (map to_lower s) = map_option (map_prod (map to_lower) (map to_lower)) (search p s)"
  by (rule search_lower) (rule patterns_blind [OF assms])

lemma digits_lower: "list_all is_digit_or_dot v \<Longrightarrow> map to_lower v = v"
proof (induction v)
  case Nil
  then show ?case by simp
next
  case (Cons c v)
  then have "\<not> is_letter c" using letter_classes(2) [of c] by auto
  then show ?case using Cons by (simp add: not_letter_case)
qed

lemma field_search_blind:
  assumes p: "p = entry_pattern \<or> p = tp_pattern \<or> p = sl_pattern"
    and e: "map to_lower s1 = map to_lower s2"
  shows "map_option snd (search p s1) = map_option snd (search p s2)"
proof -
  have v: "map_option snd (search p s) =
           map_option snd (map_option (map_prod (map to_lower) (map to_lower)) (search p s))" for s
  proof (cases "search p s")
    case None
    then show ?thesis by simp
  next
    case (Some xv)
    then obtain x v where "search p s = Some (x, v)" by (cases xv) auto
    then show ?thesis using field_search_value [OF p, of s x v] by (simp add: digits_lower)
  qed
  have "search p (map to_lower s1) = search p (map to_lower s2)" using e by simp
  then show ?thesis
    using v [of s1] v [of s2] search_pattern_lower [of p s1] search_pattern_lower [of p s2] p
    by simp
qed

lemma action_search_blind:
  assumes "map to_lower s1 = map to_lower s2"
  shows "map_option (\<lambda>(a, y). (upper a, upper y)) (search action_pattern s1) =
         map_option (\<lambda>(a, y). (upper a, upper y)) (search action_pattern s2)"
proof -
  have v: "map_option (\<lambda>(a, y). (upper a, upper y)) (search action_pattern s) =
           map_option (\<lambda>(a, y). (upper a, upper y))
             (map_option (map_prod (map to_lower) (map to_lower)) (search action_pattern s))" for s
    by (cases "search action_pattern s") (auto simp: split_def)
  have "search action_pattern (map to_lower s1) = search action_pattern (map to_lower s2)"
    using assms by simp
  then show ?thesis
    using v [of s1] v [of s2] search_pattern_lower [of action_pattern s1]
      search_pattern_lower [of action_pattern s2]
    by simp
qed

lemma parse_case_blind:
  assumes "map to_lower s1 = map to_lower s2"
  shows "parse_trade_signal s1 = parse_trade_signal s2"
proof -
  define build where "build = (\<lambda>a y (e :: string option) (t :: string option) (l :: string option).
     (let trade = [];
          trade = AList.update ''action'' a trade;
          trade = AList.update ''symbol'' (filter (\<lambda>c. c \<noteq> CHR ''/'') y) trade;
          trade = (case e of None \<Rightarrow> trade | Some v \<Rightarrow> AList.update ''entry'' v trade);
          trade = (case t of None \<Rightarrow> trade | Some v \<Rightarrow> AList.update ''tp'' v trade);
          trade = (case l of None \<Rightarrow> trade | Some v \<Rightarrow> AList.update ''sl'' v trade)
      in if map_of trade ''action'' \<noteq> None \<and> map_of trade ''symbol'' \<noteq> None
         then Some trade else None))"
  have sg: "set_group2 k m t = (case map_option snd m of None \<Rightarrow> t | Some v \<Rightarrow> AList.update k v t)"
    for k m t
    by (cases m) (auto simp: set_group2_def)
  have p: "parse_trade_signal s =
             (case map_option (\<lambda>(a, y). (upper a, upper y)) (search action_pattern s) of
                None \<Rightarrow> None
              | Some (a, y) \<Rightarrow>
                  build a y (map_option snd (search entry_pattern s))
                    (map_option snd (search tp_pattern s)) (map_option snd (search sl_pattern s)))"
    for s
    unfolding parse_trade_signal_def build_def sg
    by (cases "search action_pattern s") (simp_all add: split_def)
  have e: "map_option snd (search entry_pattern s1) = map_option snd (search entry_pattern s2)"
    by (rule field_search_blind [OF _ assms]) simp
  have t: "map_option snd (search tp_pattern s1) = map_option snd (search tp_pattern s2)"
    by (rule field_search_blind [OF _ assms]) simp
  have l: "map_option snd (search sl_pattern s1) = map_option snd (search sl_pattern s2)"
    by (rule field_search_blind [OF _ assms]) simp
  show ?thesis
    unfolding p [of s1] p [of s2] e t l action_search_blind [OF assms] ..
qed

section \<open>The first match at a position\<close>

lemma alt_first: "a s = x # xs \<Longrightarrow> alt a b s = x # (xs @ b s)"
  by (simp add: alt_def)

lemma alt_skip: "a s = [] \<Longrightarrow> alt a b s = b s"
  by (simp add: alt_def)

lemma lit_mismatch:
  assumes "upper y = q" and "q \<noteq> []" and "p \<noteq> []" and "to_lower (hd q) \<noteq> to_lower (hd p)"
  shows "lit p (y @ post) = []"
proof -
  obtain c cs where y: "y = c # cs" using assms(1,2) by (cases y) (auto simp: upper_def)
  obtain d ds where p: "p = d # ds" using assms(3) by (cases p) auto
  have "to_upper c = hd q" using assms(1) y by (auto simp: upper_def)
  then have "to_lower c = to_lower (hd q)" by (metis lower_of_upper)
  then show ?thesis using assms(4) y p by simp
qed

lemma lit_match: "upper p = p \<Longrightarrow> upper y = p \<Longrightarrow> lit p (y @ post) = [(y, post)]"
  using upper_eq_iff [of y p] by (simp add: lit_append)

lemma upper_split:
  "upper x = p @ q \<Longrightarrow> \<exists>a b. x = a @ b \<and> upper a = p \<and> upper b = q"
  unfolding upper_def by (auto simp: map_eq_append_conv)

lemma upper_space: "upper m = '' '' \<longleftrightarrow> m = '' ''"
proof
  assume "upper m = '' ''"
  then obtain c where "m = [c]" and "to_upper c = CHR '' ''"
    by (auto simp: upper_def map_eq_Cons_conv)
  then show "m = '' ''" using upper_not_letter [OF _ capital_letters(12)] by simp
next
  assume "m = '' ''"
  then show "upper m = '' ''" by (simp add: upper_def not_letter_case capital_letters)
qed

lemma upper_letters:
  assumes "upper y = q" and "list_all is_letter q"
  shows "list_all is_letter y"
proof -
  have "is_letter c" if "c \<in> set y" for c
  proof -
    have "to_upper c \<in> set q" using that assms(1) by (auto simp: upper_def)
    then have "is_letter (to_upper c)" using assms(2) unfolding list_all_iff by blast
    then show ?thesis by simp
  qed
  then show ?thesis by (simp add: list_all_iff)
qed

lemma lower_letters_differ:
  "to_lower CHR ''S'' \<noteq> to_lower CHR ''B''" "to_lower CHR ''E'' \<noteq> to_lower CHR ''X''"
  "to_lower CHR ''E'' \<noteq> to_lower CHR ''G''"
  by (simp_all add: to_lower_def uppers_def lowers_def)

lemma action_token_first:
  assumes "is_action_token a"
  shows "\<exists>xs. alt (lit ''BUY'') (lit ''SELL'') (a @ rest) = (a, rest) # xs"
proof -
  consider "upper a = ''BUY''" | "upper a = ''SELL''"
    using assms by (auto simp: is_action_token_def)
  then show ?thesis
  proof cases
    case 1
    then have "lit ''BUY'' (a @ rest) = [(a, rest)]"
      by (intro lit_match upper_literals)
    then show ?thesis by (simp add: alt_def)
  next
    case 2
    then have "lit ''BUY'' (a @ rest) = []"
      by (rule lit_mismatch) (simp_all add: lower_letters_differ)
    moreover have "lit ''SELL'' (a @ rest) = [(a, rest)]"
      using 2 by (intro lit_match upper_literals)
    ultimately show ?thesis by (simp add: alt_def)
  qed
qed

lemma spaces_first:
  assumes "list_all is_space ws" and "y \<noteq> []" and "is_letter (hd y)"
  shows "\<exists>xs. star is_space (ws @ y @ post) = (ws, y @ post) # xs"
proof -
  have "\<not> is_space (hd (y @ post))" using assms(2,3) letter_classes(1) by simp
  then show ?thesis using assms(1) by (intro star_hd) (auto simp: list_all_iff)
qed

lemma action_pattern_first:
  assumes "is_action_token a" and "list_all is_space ws" and "y \<noteq> []" and "is_letter (hd y)"
    and "instrument (y @ post) = (y, post) # xs"
  shows "\<exists>zs. action_pattern (a @ ws @ y @ post) = (a, y) # zs"
proof -
  obtain us where 1: "alt (lit ''BUY'') (lit ''SELL'') (a @ ws @ y @ post) = (a, ws @ y @ post) # us"
    using action_token_first [OF assms(1)] by blast
  obtain vs where 2: "star is_space (ws @ y @ post) = (ws, y @ post) # vs"
    using spaces_first [OF assms(2,3,4)] by blast
  show ?thesis
    unfolding action_pattern_def
    using two_groups_hd [of "alt (lit ''BUY'') (lit ''SELL'')" "a @ ws @ y @ post" a "ws @ y @ post" us
        "star is_space" ws "y @ post" vs instrument y post xs] 1 2 assms(5)
    by simp
qed

lemma eurusd_letters: "list_all is_letter ''EURUSD''" "list_all is_letter ''EUR''"
  "list_all is_letter ''USD''"
  by (simp_all add: capital_letters)

lemma no_pair_at_eurusd:
  assumes "upper y = ''EURUSD''"
    and "\<not> (\<exists>v r. post = ''/'' @ v @ r \<and> length v = 3 \<and> list_all is_letter v)"
  shows "seq (reps is_letter 3 6) (seq (lit ''/'') (reps is_letter 3 6)) (y @ post) = []"
proof (rule ccontr)
  assume "seq (reps is_letter 3 6) (seq (lit ''/'') (reps is_letter 3 6)) (y @ post) \<noteq> []"
  then obtain m r where "(m, r) \<in> set (seq (reps is_letter 3 6) (seq (lit ''/'') (reps is_letter 3 6)) (y @ post))"
    by (metis list.set_intros(1) neq_Nil_conv surj_pair)
  then obtain u w v where e: "y @ post = u @ w @ v @ r" and u: "is_letters_3_to_6 u"
    and w: "upper w = ''/''" and v: "is_letters_3_to_6 v"
    by (auto simp: seq_in letters_in lit_in_upper upper_literals)
  have w': "w = ''/''" using w by (simp add: upper_slash)
  have ly: "list_all is_letter y" using assms(1) eurusd_letters(1) by (rule upper_letters)
  have "length (upper y) = 6" using assms(1) by simp
  then have len: "length y = 6" by (simp add: upper_def)
  from e obtain us where "y = u @ us \<and> us @ post = w @ v @ r \<or> y @ us = u \<and> post = us @ w @ v @ r"
    by (auto simp: append_eq_append_conv2)
  then have post: "post = ''/'' @ v @ r"
  proof
    assume a: "y = u @ us \<and> us @ post = w @ v @ r"
    show ?thesis
    proof (cases us)
      case Nil
      then show ?thesis using a w' by simp
    next
      case (Cons c cs)
      then have "c = CHR ''/''" using a w' by simp
      moreover have "is_letter c" using a Cons ly by simp
      ultimately show ?thesis using letter_classes(4) by blast
    qed
  next
    assume a: "y @ us = u \<and> post = us @ w @ v @ r"
    then have "us = []" using u len by (auto simp: is_letters_3_to_6_def)
    then show ?thesis using a w' by simp
  qed
  have "post = ''/'' @ take 3 v @ (drop 3 v @ r)" using post by simp
  moreover have "length (take 3 v) = 3" using v by (simp add: is_letters_3_to_6_def)
  moreover have "list_all is_letter (take 3 v)"
    using v by (auto simp: is_letters_3_to_6_def list_all_iff dest: in_set_takeD)
  ultimately show False using assms(2) by blast
qed

lemma instrument_eurusd:
  assumes "upper y = ''EURUSD''"
    and "\<not> (\<exists>v r. post = ''/'' @ v @ r \<and> length v = 3 \<and> list_all is_letter v)"
  shows "instrument (y @ post) = [(y, post)]"
proof -
  have "lit ''XAUUSD'' (y @ post) = []" "lit ''XAU/USD'' (y @ post) = []"
    "lit ''GBPUSD'' (y @ post) = []"
    using assms(1) by (rule lit_mismatch; simp add: lower_letters_differ)+
  moreover have "lit ''EURUSD'' (y @ post) = [(y, post)]"
    using assms(1) by (intro lit_match upper_literals)
  ultimately show ?thesis
    using no_pair_at_eurusd [OF assms] by (simp add: instrument_def alt_def)
qed

lemma instrument_eur_usd:
  assumes "upper y = ''EUR/USD''" and "post = [] \<or> \<not> is_letter (hd post)"
  shows "\<exists>xs. instrument (y @ post) = (y, post) # xs"
proof -
  have "upper y = ''EUR'' @ ''/'' @ ''USD''" using assms(1) by simp
  then obtain u wv where "y = u @ wv" and u: "upper u = ''EUR''" and "upper wv = ''/'' @ ''USD''"
    using upper_split [of y "''EUR''" "''/'' @ ''USD''"] by blast
  moreover from this obtain w v where "wv = w @ v" and w: "upper w = ''/''" and v: "upper v = ''USD''"
    using upper_split [of wv "''/''" "''USD''"] by blast
  ultimately have y: "y = u @ w @ v" by simp
  have w': "w = ''/''" using w by (simp add: upper_slash)
  have lu: "list_all is_letter u" using u eurusd_letters(2) by (rule upper_letters)
  have "length (upper u) = 3" using u by simp
  then have nu: "length u = 3" by (simp add: upper_def)
  have lv: "list_all is_letter v" using v eurusd_letters(3) by (rule upper_letters)
  have "length (upper v) = 3" using v by simp
  then have nv: "length v = 3" by (simp add: upper_def)
  obtain xs where 1: "reps is_letter 3 6 (u @ (''/'' @ v @ post)) = (u, ''/'' @ v @ post) # xs"
    using reps_hd [of u is_letter 3 6 "''/'' @ v @ post"] lu nu capital_letters(11)
    by (auto simp: list_all_iff)
  have 2: "lit ''/'' (''/'' @ (v @ post)) = [(''/'', v @ post)]"
    by (intro lit_match upper_literals)
  obtain ys where 3: "reps is_letter 3 6 (v @ post) = (v, post) # ys"
    using reps_hd [of v is_letter 3 6 post] lv nv assms(2) by (auto simp: list_all_iff)
  obtain zs where 4: "seq (lit ''/'') (reps is_letter 3 6) (''/'' @ v @ post) = (''/'' @ v, post) # zs"
    using seq_hd [of "lit ''/''" "''/'' @ v @ post" "''/''" "v @ post" "[]"
        "reps is_letter 3 6" v post ys] 2 3 by auto
  obtain us where "seq (reps is_letter 3 6) (seq (lit ''/'') (reps is_letter 3 6)) (u @ (''/'' @ v @ post))
      = (u @ ''/'' @ v, post) # us"
    using seq_hd [of "reps is_letter 3 6" "u @ (''/'' @ v @ post)" u "''/'' @ v @ post" xs
        "seq (lit ''/'') (reps is_letter 3 6)" "''/'' @ v" post zs] 1 4 by auto
  then show ?thesis using y w' by (simp add: instrument_def alt_def)
qed

section \<open>The record at the leftmost match\<close>

lemma parse_at_first_match:
  assumes "is_action_token a" and "list_all is_space ws" and "y \<noteq> []" and "is_letter (hd y)"
    and "instrument (y @ post) = (y, post) # xs"
    and "\<forall>j < length pre. action_pattern (drop j pre @ a @ ws @ y @ post) = []"
  shows "\<exists>t. parse_trade_signal (pre @ a @ ws @ y @ post) = Some t \<and>
           map_of t ''action'' = Some (upper a) \<and>
           map_of t ''symbol'' = Some (filter (\<lambda>c. c \<noteq> CHR ''/'') (upper y))"
proof -
  obtain zs where "action_pattern (a @ ws @ y @ post) = (a, y) # zs"
    using action_pattern_first [OF assms(1-5)] by blast
  then have s: "search action_pattern (pre @ a @ ws @ y @ post) = Some (a, y)"
    using assms(6) search_leftmost [of action_pattern "a @ ws @ y @ post" "(a, y)" zs pre] by simp
  then obtain t where t: "parse_trade_signal (pre @ a @ ws @ y @ post) = Some t"
    using parse_None_iff [of "pre @ a @ ws @ y @ post"] by (cases "parse_trade_signal (pre @ a @ ws @ y @ post)") auto
  show ?thesis
    using t parse_lookup [OF t, of "''action''"] parse_lookup [OF t, of "''symbol''"] s by simp
qed

lemma upper_first_letter:
  assumes "upper y = q" and "q \<noteq> []" and "is_letter (hd q)"
  shows "y \<noteq> [] \<and> is_letter (hd y)"
proof -
  obtain c cs where y: "y = c # cs" using assms(1,2) by (cases y) (auto simp: upper_def)
  then have "to_upper c = hd q" using assms(1) by (auto simp: upper_def)
  then have "is_letter c" using assms(3) by (metis is_letter_upper)
  then show ?thesis using y by simp
qed

lemma eurusd_filtered:
  "filter (\<lambda>c. c \<noteq> CHR ''/'') ''EUR/USD'' = ''EURUSD''"
  "filter (\<lambda>c. c \<noteq> CHR ''/'') ''EURUSD'' = ''EURUSD''"
  by simp_all

lemma parse_eurusd:
  assumes "is_action_token a" and "list_all is_space ws" and "upper y = ''EURUSD''"
    and "\<not> (\<exists>v r. post = ''/'' @ v @ r \<and> length v = 3 \<and> list_all is_letter v)"
    and "\<forall>j < length pre. action_pattern (drop j pre @ a @ ws @ y @ post) = []"
  shows "\<exists>t. parse_trade_signal (pre @ a @ ws @ y @ post) = Some t \<and>
           map_of t ''action'' = Some (upper a) \<and> map_of t ''symbol'' = Some ''EURUSD''"
proof -
  have l: "y \<noteq> [] \<and> is_letter (hd y)"
    using assms(3) by (rule upper_first_letter) (simp_all add: capital_letters)
  have i: "instrument (y @ post) = (y, post) # []"
    using instrument_eurusd [OF assms(3,4)] .
  show ?thesis
    using parse_at_first_match [OF assms(1,2) conjunct1 [OF l] conjunct2 [OF l] i assms(5)]
    by (simp add: assms(3))
qed

lemma parse_eur_usd:
  assumes "is_action_token a" and "list_all is_space ws" and "upper y = ''EUR/USD''"
    and "post = [] \<or> \<not> is_letter (hd post)"
    and "\<forall>j < length pre. action_pattern (drop j pre @ a @ ws @ y @ post) = []"
  shows "\<exists>t. parse_trade_signal (pre @ a @ ws @ y @ post) = Some t \<and>
           map_of t ''action'' = Some (upper a) \<and> map_of t ''symbol'' = Some ''EURUSD''"
proof -
  have l: "y \<noteq> [] \<and> is_letter (hd y)"
    using assms(3) by (rule upper_first_letter) (simp_all add: capital_letters)
  obtain xs where i: "instrument (y @ post) = (y, post) # xs"
    using instrument_eur_usd [OF assms(3,4)] by blast
  show ?thesis
    using parse_at_first_match [OF assms(1,2) conjunct1 [OF l] conjunct2 [OF l] i assms(5)]
    by (simp add: assms(3))
qed

lemma parse_Some_if_token:
  assumes "is_action_token a" and "list_all is_space ws" and "is_instrument_token y"
  shows "\<exists>t. parse_trade_signal (pre @ a @ ws @ y @ post) = Some t"
proof -
  have "action_then_instrument (pre @ a @ ws @ y @ post)"
    unfolding action_then_instrument_def using assms by blast
  then have "parse_trade_signal (pre @ a @ ws @ y @ post) \<noteq> None"
    by (simp add: parse_None_iff search_action_None_iff)
  then show ?thesis by auto
qed

lemma eur_usd_token: "upper y = ''EUR/USD'' \<Longrightarrow> is_instrument_token y"
proof -
  assume a: "upper y = ''EUR/USD''"
  then have "upper y = ''EUR'' @ ''/'' @ ''USD''" by simp
  then obtain u wv where "y = u @ wv" and u: "upper u = ''EUR''" and "upper wv = ''/'' @ ''USD''"
    using upper_split [of y "''EUR''" "''/'' @ ''USD''"] by blast
  moreover from this obtain w v where "wv = w @ v" and w: "upper w = ''/''" and v: "upper v = ''USD''"
    using upper_split [of wv "''/''" "''USD''"] by blast
  ultimately have y: "y = u @ ''/'' @ v" by (simp add: upper_slash)
  have "length (upper u) = 3" "length (upper v) = 3" using u v by simp_all
  then have "length u = 3" "length v = 3" by (simp_all add: upper_def)
  moreover have "list_all is_letter u" using u eurusd_letters(2) by (rule upper_letters)
  moreover have "list_all is_letter v" using v eurusd_letters(3) by (rule upper_letters)
  ultimately show ?thesis
    unfolding is_instrument_token_def is_letters_3_to_6_def using y by auto
qed

lemma split_buy_eurusd:
  assumes "upper x = ''BUY EURUSD''"
  obtains a y where "x = a @ '' '' @ y" and "upper a = ''BUY''" and "upper y = ''EURUSD''"
proof -
  have "upper x = ''BUY'' @ '' '' @ ''EURUSD''" using assms by simp
  then obtain a wy where 1: "x = a @ wy" "upper a = ''BUY''" "upper wy = '' '' @ ''EURUSD''"
    using upper_split [of x "''BUY''" "'' '' @ ''EURUSD''"] by blast
  then obtain w y where 2: "wy = w @ y" "upper w = '' ''" "upper y = ''EURUSD''"
    using upper_split [of wy "'' ''" "''EURUSD''"] by blast
  show ?thesis using 1 2 that by (simp add: upper_space)
qed

lemma split_sell_eur_usd:
  assumes "upper x = ''SELL EUR/USD''"
  obtains a y where "x = a @ '' '' @ y" and "upper a = ''SELL''" and "upper y = ''EUR/USD''"
proof -
  have "upper x = ''SELL'' @ '' '' @ ''EUR/USD''" using assms by simp
  then obtain a wy where 1: "x = a @ wy" "upper a = ''SELL''" "upper wy = '' '' @ ''EUR/USD''"
    using upper_split [of x "''SELL''" "'' '' @ ''EUR/USD''"] by blast
  then obtain w y where 2: "wy = w @ y" "upper w = '' ''" "upper y = ''EUR/USD''"
    using upper_split [of wy "'' ''" "''EUR/USD''"] by blast
  show ?thesis using 1 2 that by (simp add: upper_space)
qed

lemma one_space: "list_all is_space '' ''"
  by (simp add: is_space_def)

section \<open>The gate of the extractor\<close>

lemma action_token_upper:
  assumes "search action_pattern s = Some (a, y)"
  shows "upper a = ''BUY'' \<or> upper a = ''SELL''"
proof -
  obtain pre rest where "s = pre @ rest" "(a, y) \<in> set (action_pattern rest)"
    using search_member [OF assms] by blast
  then show ?thesis unfolding action_pattern_in is_action_token_def by blast
qed

text \<open>
  Claim C1. The extractor returns \<open>None\<close> exactly when the action rule finds no match,
  which is exactly when the text holds no action token followed, after whitespace or
  nothing, by an instrument token. Every record it returns has the action \<open>BUY\<close> or
  \<open>SELL\<close> and has a symbol; so no record holds optional fields alone.
\<close>

theorem extractor_gate:
  "(parse_trade_signal s = None \<longleftrightarrow> search action_pattern s = None) \<and>
   (search action_pattern s = None \<longleftrightarrow> \<not> action_then_instrument s) \<and>
   (\<forall>t. parse_trade_signal s = Some t \<longrightarrow>
      (map_of t ''action'' = Some ''BUY'' \<or> map_of t ''action'' = Some ''SELL'') \<and>
      (\<exists>y. map_of t ''symbol'' = Some y))"
proof (intro conjI allI impI)
  show "parse_trade_signal s = None \<longleftrightarrow> search action_pattern s = None"
    by (rule parse_None_iff)
  show "search action_pattern s = None \<longleftrightarrow> \<not> action_then_instrument s"
    by (rule search_action_None_iff)
next
  fix t assume t: "parse_trade_signal s = Some t"
  then obtain a y where m: "search action_pattern s = Some (a, y)"
    using parse_None_iff [of s] by (cases "search action_pattern s") auto
  show "map_of t ''action'' = Some ''BUY'' \<or> map_of t ''action'' = Some ''SELL''"
    using parse_lookup [OF t, of "''action''"] m action_token_upper [OF m] by auto
  show "\<exists>y. map_of t ''symbol'' = Some y"
    using parse_lookup [OF t, of "''symbol''"] m by simp
qed

theorem extractor_gate_witness:
  "action_then_instrument ''BUY EURUSD'' \<and>
   map_of [(''action'', ''BUY''), (''symbol'', ''EURUSD'')] ''action'' = Some ''BUY'' \<and>
   \<not> action_then_instrument ''good morning traders''"
proof -
  have "action_then_instrument ''BUY EURUSD''"
    using extractor_gate [of "''BUY EURUSD''"] parse_buy_eurusd by (metis option.distinct(1))
  moreover have "\<not> action_then_instrument ''good morning traders''"
    using extractor_gate [of "''good morning traders''"] parse_good_morning by metis
  ultimately show ?thesis by simp
qed


section \<open>The values of entry, take profit and stop loss\<close>

text \<open>
  Claim C6 as the specification states it fails: the value rule is \<open>[\d.]+\<close>, any run of
  digits and points, so the entry of \<open>BUY EURUSD Entry...\<close> is the three points, which is
  no decimal number.
\<close>

theorem value_not_decimal:
  "parse_trade_signal ''BUY EURUSD Entry...'' =
     Some [(''action'', ''BUY''), (''symbol'', ''EURUSD''), (''entry'', ''...'')] \<and>
   \<not> is_decimal_number ''...''"
  by code_simp

text \<open>
  Claim C6, amended. Every entry, take profit or stop loss of a returned record is a
  non-empty text of digits and points that stands in the input as it is: a string, a
  piece of the text, never a number.
\<close>

theorem value_is_literal:
  assumes "parse_trade_signal s = Some t" and "k = ''entry'' \<or> k = ''tp'' \<or> k = ''sl''"
    and "map_of t k = Some v"
  shows "v \<noteq> [] \<and> list_all is_digit_or_dot v \<and> sublist v s"
proof -
  have "\<exists>p. (p = entry_pattern \<or> p = tp_pattern \<or> p = sl_pattern) \<and>
          map_option snd (search p s) = Some v"
    using assms(2)
  proof (elim disjE)
    assume "k = ''entry''"
    then have "map_option snd (search entry_pattern s) = Some v"
      using parse_lookup [OF assms(1), of k] assms(3) by simp
    then show ?thesis by blast
  next
    assume "k = ''tp''"
    then have "map_option snd (search tp_pattern s) = Some v"
      using parse_lookup [OF assms(1), of k] assms(3) by simp
    then show ?thesis by blast
  next
    assume "k = ''sl''"
    then have "map_option snd (search sl_pattern s) = Some v"
      using parse_lookup [OF assms(1), of k] assms(3) by simp
    then show ?thesis by blast
  qed
  then obtain p where p: "p = entry_pattern \<or> p = tp_pattern \<or> p = sl_pattern"
    and m: "map_option snd (search p s) = Some v"
    by blast
  from m obtain x where "search p s = Some (x, v)" by (cases "search p s") auto
  then show ?thesis using field_search_value [OF p] by blast
qed

lemma scenario_entry:
  "map_of [(''action'', ''BUY''), (''symbol'', ''GBPUSD''), (''entry'', ''1.2650''),
           (''tp'', ''1.2750''), (''sl'', ''1.2600'')] ''entry'' = Some ''1.2650''"
  by simp

theorem value_is_literal_witness:
  "''1.2650'' \<noteq> [] \<and> list_all is_digit_or_dot ''1.2650'' \<and>
   sublist ''1.2650'' ''BUY GBPUSD Entry: 1.2650 SL 1.2600 TP 1.2750''"
  using value_is_literal [OF parse_scenario _ scenario_entry] by simp

section \<open>A signal inside a text\<close>

text \<open>
  Claim C3 as the specification states it fails: the extractor reports the leftmost match
  of the action rule, so a text that holds \<open>BUY EURUSD\<close> after another signal gives the
  other signal.
\<close>

theorem earlier_signal_wins:
  "''SELL GBPUSD BUY EURUSD'' = ''SELL GBPUSD '' @ ''BUY EURUSD'' \<and>
   parse_trade_signal ''SELL GBPUSD BUY EURUSD'' =
     Some [(''action'', ''SELL''), (''symbol'', ''GBPUSD'')]"
  by code_simp

text \<open>
  Claim C3, amended. A text that holds \<open>BUY EURUSD\<close> or \<open>SELL EUR/USD\<close>, in any letter
  case, always gives a record. The record has the action \<open>BUY\<close> (respectively \<open>SELL\<close>) and
  the symbol \<open>EURUSD\<close> when no match of the action rule begins before that occurrence and
  the instrument is not made longer by what follows it: \<open>EURUSD\<close> by a \<open>/\<close> with three
  letters, \<open>EUR/USD\<close> by a letter.
\<close>

theorem signal_in_text:
  assumes "upper x = ''BUY EURUSD'' \<or> upper x = ''SELL EUR/USD''"
  shows "(\<exists>t. parse_trade_signal (pre @ x @ post) = Some t) \<and>
         ((\<forall>j < length pre. action_pattern (drop j pre @ x @ post) = []) \<and>
          (upper x = ''BUY EURUSD'' \<longrightarrow>
             \<not> (\<exists>v r. post = ''/'' @ v @ r \<and> length v = 3 \<and> list_all is_letter v)) \<and>
          (upper x = ''SELL EUR/USD'' \<longrightarrow> post = [] \<or> \<not> is_letter (hd post)) \<longrightarrow>
          (\<exists>t. parse_trade_signal (pre @ x @ post) = Some t \<and>
               map_of t ''action'' = Some (if upper x = ''BUY EURUSD'' then ''BUY'' else ''SELL'') \<and>
               map_of t ''symbol'' = Some ''EURUSD''))"
  using assms
proof
  assume b: "upper x = ''BUY EURUSD''"
  then obtain a y where x: "x = a @ '' '' @ y" and a: "upper a = ''BUY''" and y: "upper y = ''EURUSD''"
    by (rule split_buy_eurusd)
  have tok: "is_action_token a" using a by (simp add: is_action_token_def)
  have "\<exists>t. parse_trade_signal (pre @ a @ '' '' @ y @ post) = Some t"
    using tok one_space by (rule parse_Some_if_token) (simp add: is_instrument_token_def y)
  moreover have "\<exists>t. parse_trade_signal (pre @ a @ '' '' @ y @ post) = Some t \<and>
        map_of t ''action'' = Some ''BUY'' \<and> map_of t ''symbol'' = Some ''EURUSD''"
    if "\<forall>j < length pre. action_pattern (drop j pre @ a @ '' '' @ y @ post) = []"
      and "\<not> (\<exists>v r. post = ''/'' @ v @ r \<and> length v = 3 \<and> list_all is_letter v)"
    using parse_eurusd [OF tok one_space y that(2,1)] a by simp
  ultimately show ?thesis using b x by simp
next
  assume s: "upper x = ''SELL EUR/USD''"
  then obtain a y where x: "x = a @ '' '' @ y" and a: "upper a = ''SELL''" and y: "upper y = ''EUR/USD''"
    by (rule split_sell_eur_usd)
  have tok: "is_action_token a" using a by (simp add: is_action_token_def)
  have "\<exists>t. parse_trade_signal (pre @ a @ '' '' @ y @ post) = Some t"
    using tok one_space eur_usd_token [OF y] by (rule parse_Some_if_token)
  moreover have "\<exists>t. parse_trade_signal (pre @ a @ '' '' @ y @ post) = Some t \<and>
        map_of t ''action'' = Some ''SELL'' \<and> map_of t ''symbol'' = Some ''EURUSD''"
    if "\<forall>j < length pre. action_pattern (drop j pre @ a @ '' '' @ y @ post) = []"
      and "post = [] \<or> \<not> is_letter (hd post)"
    using parse_eur_usd [OF tok one_space y that(2,1)] a by simp
  ultimately show ?thesis using s x by simp
qed

lemma upper_examples:
  "upper ''buy EurUsd'' = ''BUY EURUSD''" "upper ''eur/usd'' = ''EUR/USD''"
  "upper ''EURUSD'' = ''EURUSD''" "upper ''Buy'' = ''BUY''"
  "upper ''Sell eur/USD'' = ''SELL EUR/USD''"
  by code_simp+

lemma below_iff_upt: "(\<forall>j < n. P j) \<longleftrightarrow> list_all P [0..<n]"
  by (auto simp: list_all_iff)

lemma no_match_before_buy:
  "\<forall>j < length ''Signal: ''. action_pattern (drop j ''Signal: '' @ ''buy EurUsd'' @ '' now'') = []"
  "\<forall>j < length ''Signal: ''. action_pattern (drop j ''Signal: '' @ ''Sell eur/USD'' @ '' now'') = []"
  unfolding below_iff_upt by code_simp+

lemma now_follows:
  "\<not> (\<exists>v r. '' now'' = ''/'' @ v @ r \<and> length v = 3 \<and> list_all is_letter v)"
  "'' now'' = [] \<or> \<not> is_letter (hd '' now'')"
  by (simp_all add: capital_letters)

theorem signal_in_text_witness:
  "(\<exists>t. parse_trade_signal (''Signal: '' @ ''buy EurUsd'' @ '' now'') = Some t \<and>
        map_of t ''action'' = Some ''BUY'' \<and> map_of t ''symbol'' = Some ''EURUSD'') \<and>
   (\<exists>t. parse_trade_signal (''Signal: '' @ ''Sell eur/USD'' @ '' now'') = Some t \<and>
        map_of t ''action'' = Some ''SELL'' \<and> map_of t ''symbol'' = Some ''EURUSD'')"
proof
  show "\<exists>t. parse_trade_signal (''Signal: '' @ ''buy EurUsd'' @ '' now'') = Some t \<and>
        map_of t ''action'' = Some ''BUY'' \<and> map_of t ''symbol'' = Some ''EURUSD''"
    using signal_in_text [of "''buy EurUsd''" "''Signal: ''" "'' now''"] no_match_before_buy(1)
      now_follows(1)
    by (simp add: upper_examples)
  show "\<exists>t. parse_trade_signal (''Signal: '' @ ''Sell eur/USD'' @ '' now'') = Some t \<and>
        map_of t ''action'' = Some ''SELL'' \<and> map_of t ''symbol'' = Some ''EURUSD''"
    using signal_in_text [of "''Sell eur/USD''" "''Signal: ''" "'' now''"] no_match_before_buy(2)
      now_follows(2)
    by (simp add: upper_examples)
qed


section \<open>The symbol in canonical form\<close>

lemma normalised_symbol:
  "CHR ''/'' \<notin> set (filter (\<lambda>c. c \<noteq> CHR ''/'') (upper y)) \<and>
   upper (filter (\<lambda>c. c \<noteq> CHR ''/'') (upper y)) = filter (\<lambda>c. c \<noteq> CHR ''/'') (upper y)"
  by (auto simp: upper_def intro!: map_idI)

text \<open>
  Claim C4 as the specification states it fails. The symbol of a record is the instrument
  token that the action rule matched, and that token need not be the symbol as written:
  a letter after \<open>EUR/USD\<close> belongs to the token, a letter after \<open>EURUSD\<close> does not; a \<open>/\<close>
  with three letters after \<open>EURUSD\<close> belongs to the token, after \<open>EUR/USD\<close> it does not; and
  after an earlier signal neither spelling is the token.
\<close>

theorem symbol_written_is_not_token:
  "''BUY EUR/USDm Entry 1.1'' = ''BUY '' @ ''EUR/USD'' @ ''m Entry 1.1'' \<and>
   ''BUY EURUSDm Entry 1.1'' = ''BUY '' @ ''EURUSD'' @ ''m Entry 1.1'' \<and>
   parse_trade_signal ''BUY EUR/USDm Entry 1.1'' =
     Some [(''action'', ''BUY''), (''symbol'', ''EURUSDM''), (''entry'', ''1.1'')] \<and>
   parse_trade_signal ''BUY EURUSDm Entry 1.1'' =
     Some [(''action'', ''BUY''), (''symbol'', ''EURUSD''), (''entry'', ''1.1'')] \<and>
   ''BUY EUR/USD/JPY'' = ''BUY '' @ ''EUR/USD'' @ ''/JPY'' \<and>
   ''BUY EURUSD/JPY'' = ''BUY '' @ ''EURUSD'' @ ''/JPY'' \<and>
   parse_trade_signal ''BUY EUR/USD/JPY'' = Some [(''action'', ''BUY''), (''symbol'', ''EURUSD'')] \<and>
   parse_trade_signal ''BUY EURUSD/JPY'' = Some [(''action'', ''BUY''), (''symbol'', ''EURUSDJPY'')] \<and>
   ''SELL GBPUSD BUY EUR/USD'' = ''SELL GBPUSD BUY '' @ ''EUR/USD'' \<and>
   ''SELL GBPUSD BUY EURUSD'' = ''SELL GBPUSD BUY '' @ ''EURUSD'' \<and>
   parse_trade_signal ''SELL GBPUSD BUY EUR/USD'' =
     Some [(''action'', ''SELL''), (''symbol'', ''GBPUSD'')] \<and>
   parse_trade_signal ''SELL GBPUSD BUY EURUSD'' =
     Some [(''action'', ''SELL''), (''symbol'', ''GBPUSD'')]"
  by code_simp

text \<open>
  Claim C4, amended. The symbol of a record is the instrument token that the action rule
  matched, in upper case and without \<open>/\<close>. Two texts that differ only in writing the
  symbol as \<open>EUR/USD\<close> or as \<open>EURUSD\<close>, in any letter case, after an action token and
  whitespace, both give the symbol \<open>EURUSD\<close> when the action rule matches nowhere before
  that action token and what follows the symbol begins neither with a letter nor with a
  \<open>/\<close> and three letters.
\<close>

theorem symbol_normalised:
  "(\<forall>s t. parse_trade_signal s = Some t \<longrightarrow>
      (\<exists>a y. search action_pattern s = Some (a, y) \<and>
             map_of t ''symbol'' = Some (filter (\<lambda>c. c \<noteq> CHR ''/'') (upper y)) \<and>
             CHR ''/'' \<notin> set (filter (\<lambda>c. c \<noteq> CHR ''/'') (upper y)) \<and>
             upper (filter (\<lambda>c. c \<noteq> CHR ''/'') (upper y)) = filter (\<lambda>c. c \<noteq> CHR ''/'') (upper y))) \<and>
   (\<forall>pre a ws y1 y2 post.
      is_action_token a \<and> list_all is_space ws \<and> upper y1 = ''EUR/USD'' \<and> upper y2 = ''EURUSD'' \<and>
      (post = [] \<or> \<not> is_letter (hd post)) \<and>
      \<not> (\<exists>v r. post = ''/'' @ v @ r \<and> length v = 3 \<and> list_all is_letter v) \<and>
      (\<forall>j < length pre. action_pattern (drop j pre @ a @ ws @ y1 @ post) = []) \<and>
      (\<forall>j < length pre. action_pattern (drop j pre @ a @ ws @ y2 @ post) = []) \<longrightarrow>
      (\<exists>t1 t2. parse_trade_signal (pre @ a @ ws @ y1 @ post) = Some t1 \<and>
               parse_trade_signal (pre @ a @ ws @ y2 @ post) = Some t2 \<and>
               map_of t1 ''symbol'' = Some ''EURUSD'' \<and> map_of t2 ''symbol'' = Some ''EURUSD''))"
proof (intro conjI allI impI)
  fix s t assume t: "parse_trade_signal s = Some t"
  then obtain a y where m: "search action_pattern s = Some (a, y)"
    using parse_None_iff [of s] by (cases "search action_pattern s") auto
  have "map_of t ''symbol'' = Some (filter (\<lambda>c. c \<noteq> CHR ''/'') (upper y))"
    using parse_lookup [OF t, of "''symbol''"] m by simp
  then show "\<exists>a y. search action_pattern s = Some (a, y) \<and>
             map_of t ''symbol'' = Some (filter (\<lambda>c. c \<noteq> CHR ''/'') (upper y)) \<and>
             CHR ''/'' \<notin> set (filter (\<lambda>c. c \<noteq> CHR ''/'') (upper y)) \<and>
             upper (filter (\<lambda>c. c \<noteq> CHR ''/'') (upper y)) = filter (\<lambda>c. c \<noteq> CHR ''/'') (upper y)"
    using m normalised_symbol [of y] by blast
next
  fix pre a ws y1 y2 post
  assume h: "is_action_token a \<and> list_all is_space ws \<and> upper y1 = ''EUR/USD'' \<and> upper y2 = ''EURUSD'' \<and>
      (post = [] \<or> \<not> is_letter (hd post)) \<and>
      \<not> (\<exists>v r. post = ''/'' @ v @ r \<and> length v = 3 \<and> list_all is_letter v) \<and>
      (\<forall>j < length pre. action_pattern (drop j pre @ a @ ws @ y1 @ post) = []) \<and>
      (\<forall>j < length pre. action_pattern (drop j pre @ a @ ws @ y2 @ post) = [])"
  then have p1: "post = [] \<or> \<not> is_letter (hd post)" by blast
  have p2: "\<not> (\<exists>v r. post = ''/'' @ v @ r \<and> length v = 3 \<and> list_all is_letter v)"
    using h by blast
  obtain t1 where 1: "parse_trade_signal (pre @ a @ ws @ y1 @ post) = Some t1"
      "map_of t1 ''symbol'' = Some ''EURUSD''"
    using parse_eur_usd [of a ws y1 post pre] h p1 by blast
  obtain t2 where 2: "parse_trade_signal (pre @ a @ ws @ y2 @ post) = Some t2"
      "map_of t2 ''symbol'' = Some ''EURUSD''"
    using parse_eurusd [of a ws y2 post pre] h p2 by blast
  show "\<exists>t1 t2. parse_trade_signal (pre @ a @ ws @ y1 @ post) = Some t1 \<and>
               parse_trade_signal (pre @ a @ ws @ y2 @ post) = Some t2 \<and>
               map_of t1 ''symbol'' = Some ''EURUSD'' \<and> map_of t2 ''symbol'' = Some ''EURUSD''"
    using 1 2 by blast
qed

lemma no_match_before_symbol:
  "\<forall>j < length ''New: ''. action_pattern (drop j ''New: '' @ ''Buy'' @ '' '' @ ''eur/usd'' @ ''/ x'') = []"
  "\<forall>j < length ''New: ''. action_pattern (drop j ''New: '' @ ''Buy'' @ '' '' @ ''EURUSD'' @ ''/ x'') = []"
  unfolding below_iff_upt by code_simp+

lemma slash_follows:
  "''/ x'' = [] \<or> \<not> is_letter (hd ''/ x'')"
  "\<not> (\<exists>v r. ''/ x'' = ''/'' @ v @ r \<and> length v = 3 \<and> list_all is_letter v)"
proof -
  show "''/ x'' = [] \<or> \<not> is_letter (hd ''/ x'')" by code_simp
  show "\<not> (\<exists>v r. ''/ x'' = ''/'' @ v @ r \<and> length v = 3 \<and> list_all is_letter v)"
  proof
    assume "\<exists>v r. ''/ x'' = ''/'' @ v @ r \<and> length v = 3 \<and> list_all is_letter v"
    then obtain v r where e: "''/ x'' = ''/'' @ v @ r" and n: "length v = 3" by blast
    from e have "length '' x'' = length (v @ r)" by simp
    then show False using n by simp
  qed
qed

theorem symbol_normalised_witness:
  "\<exists>t1 t2. parse_trade_signal (''New: '' @ ''Buy'' @ '' '' @ ''eur/usd'' @ ''/ x'') = Some t1 \<and>
           parse_trade_signal (''New: '' @ ''Buy'' @ '' '' @ ''EURUSD'' @ ''/ x'') = Some t2 \<and>
           map_of t1 ''symbol'' = Some ''EURUSD'' \<and> map_of t2 ''symbol'' = Some ''EURUSD''"
proof -
  have "is_action_token ''Buy''" by (simp add: is_action_token_def upper_examples)
  then show ?thesis
    using symbol_normalised no_match_before_symbol slash_follows one_space upper_examples(2,3)
    by blast
qed

text \<open>
  The two conditions on what follows the symbol cannot be dropped: with no earlier match
  of the action rule, a letter after \<open>EUR/USD\<close> and a \<open>/\<close> with three letters after
  \<open>EURUSD\<close> each make the token, and so the symbol, longer than \<open>EURUSD\<close>.
\<close>

lemma letters_run:
  obtains m rest where "post = m @ rest" and "list_all is_letter m" and "length m \<le> k"
    and "length m = k \<or> rest = [] \<or> \<not> is_letter (hd rest)"
    and "0 < k \<Longrightarrow> post \<noteq> [] \<Longrightarrow> is_letter (hd post) \<Longrightarrow> m \<noteq> []"
proof -
  define m where "m = take k (takeWhile is_letter post)"
  define rest where "rest = drop k (takeWhile is_letter post) @ dropWhile is_letter post"
  have 1: "post = m @ rest"
    unfolding m_def rest_def by (simp only: append_take_drop_id takeWhile_dropWhile_id flip: append_assoc)
  have 2: "list_all is_letter m"
    unfolding m_def list_all_iff by (auto dest!: in_set_takeD set_takeWhileD)
  have 3: "length m \<le> k" by (simp add: m_def)
  have 4: "length m = k \<or> rest = [] \<or> \<not> is_letter (hd rest)"
  proof (cases "length m = k")
    case False
    then have "length (takeWhile is_letter post) < k" by (simp add: m_def min_def split: if_splits)
    then have r: "rest = dropWhile is_letter post" by (simp add: rest_def)
    show ?thesis unfolding r using hd_dropWhile [of is_letter post] by blast
  qed simp
  have 5: "m \<noteq> []" if "0 < k" "post \<noteq> []" "is_letter (hd post)"
    using that by (cases post; cases k) (auto simp: m_def)
  show thesis using that [OF 1 2 3 4 5] .
qed

lemma instrument_pair_first:
  assumes "list_all is_letter u" and "3 \<le> length u" and "length u \<le> 6"
    and "list_all is_letter v" and "3 \<le> length v" and "length v \<le> 6"
    and "length v = 6 \<or> post = [] \<or> \<not> is_letter (hd post)"
  shows "\<exists>xs. instrument (u @ ''/'' @ v @ post) = (u @ ''/'' @ v, post) # xs"
proof -
  obtain xs where 1: "reps is_letter 3 6 (u @ (''/'' @ v @ post)) = (u, ''/'' @ v @ post) # xs"
    using reps_hd [of u is_letter 3 6 "''/'' @ v @ post"] assms(1-3) capital_letters(11)
    by (auto simp: list_all_iff)
  have 2: "lit ''/'' (''/'' @ (v @ post)) = [(''/'', v @ post)]"
    by (intro lit_match upper_literals)
  obtain ys where 3: "reps is_letter 3 6 (v @ post) = (v, post) # ys"
    using reps_hd [of v is_letter 3 6 post] assms(4-7) by (auto simp: list_all_iff)
  obtain zs where 4: "seq (lit ''/'') (reps is_letter 3 6) (''/'' @ v @ post) = (''/'' @ v, post) # zs"
    using seq_hd [of "lit ''/''" "''/'' @ v @ post" "''/''" "v @ post" "[]"
        "reps is_letter 3 6" v post ys] 2 3 by auto
  obtain us where "seq (reps is_letter 3 6) (seq (lit ''/'') (reps is_letter 3 6)) (u @ (''/'' @ v @ post))
      = (u @ ''/'' @ v, post) # us"
    using seq_hd [of "reps is_letter 3 6" "u @ (''/'' @ v @ post)" u "''/'' @ v @ post" xs
        "seq (lit ''/'') (reps is_letter 3 6)" "''/'' @ v" post zs] 1 4 by auto
  then show ?thesis by (simp add: instrument_def alt_def)
qed

lemma letters_filtered:
  assumes "list_all is_letter m"
  shows "filter (\<lambda>c. c \<noteq> CHR ''/'') (upper m) = upper m"
proof -
  have "c \<noteq> CHR ''/''" if c: "c \<in> set (upper m)" for c
  proof -
    obtain d where "d \<in> set m" and "c = to_upper d" using c by (auto simp: upper_def)
    then have "is_letter c" using assms by (simp add: list_all_iff)
    then show ?thesis by (rule letter_classes(4))
  qed
  then show ?thesis by (simp add: filter_id_conv)
qed

lemma symbol_of_longer_token:
  assumes "is_action_token a" and "list_all is_space ws" and "y \<noteq> []" and "is_letter (hd y)"
    and "instrument (y @ e @ rest) = (y @ e, rest) # xs"
    and "\<forall>j < length pre. action_pattern (drop j pre @ a @ ws @ y @ e @ rest) = []"
  shows "\<exists>t. parse_trade_signal (pre @ a @ ws @ y @ e @ rest) = Some t \<and>
           map_of t ''symbol'' = Some (filter (\<lambda>c. c \<noteq> CHR ''/'') (upper (y @ e)))"
proof -
  have 1: "y @ e \<noteq> []" "is_letter (hd (y @ e))" using assms(3,4) by simp_all
  have 2: "instrument ((y @ e) @ rest) = (y @ e, rest) # xs" using assms(5) by simp
  have 3: "\<forall>j < length pre. action_pattern (drop j pre @ a @ ws @ (y @ e) @ rest) = []"
    using assms(6) by simp
  show ?thesis
    using parse_at_first_match [OF assms(1,2) 1 2 3] by auto
qed

lemma letter_after_eur_usd:
  assumes "is_action_token a" and "list_all is_space ws" and "upper y = ''EUR/USD''"
    and "post \<noteq> []" and "is_letter (hd post)"
    and "\<forall>j < length pre. action_pattern (drop j pre @ a @ ws @ y @ post) = []"
  shows "\<exists>t m. m \<noteq> [] \<and> parse_trade_signal (pre @ a @ ws @ y @ post) = Some t \<and>
           map_of t ''symbol'' = Some (''EURUSD'' @ m)"
proof -
  have "upper y = ''EUR'' @ ''/'' @ ''USD''" using assms(3) by simp
  then obtain u wv where "y = u @ wv" and u: "upper u = ''EUR''" and "upper wv = ''/'' @ ''USD''"
    using upper_split [of y "''EUR''" "''/'' @ ''USD''"] by blast
  moreover from this obtain w v where "wv = w @ v" and w: "upper w = ''/''" and v: "upper v = ''USD''"
    using upper_split [of wv "''/''" "''USD''"] by blast
  ultimately have "y = u @ w @ v" by simp
  moreover have "w = ''/''" using w by (simp add: upper_slash)
  ultimately have y: "y = u @ ''/'' @ v" by simp
  have lu: "list_all is_letter u" using u eurusd_letters(2) by (rule upper_letters)
  have "length (upper u) = 3" using u by simp
  then have nu: "length u = 3" by (simp add: upper_def)
  have lv: "list_all is_letter v" using v eurusd_letters(3) by (rule upper_letters)
  have "length (upper v) = 3" using v by simp
  then have nv: "length v = 3" by (simp add: upper_def)
  obtain m rest where post: "post = m @ rest" and lm: "list_all is_letter m" and nm: "length m \<le> 3"
    and stop: "length m = 3 \<or> rest = [] \<or> \<not> is_letter (hd rest)" and m: "m \<noteq> []"
    using letters_run [of post 3] assms(4,5) by (metis zero_less_numeral)
  obtain xs where "instrument (u @ ''/'' @ (v @ m) @ rest) = (u @ ''/'' @ (v @ m), rest) # xs"
    using instrument_pair_first [of u "v @ m" rest] lu nu lv nv lm nm stop by auto
  then have i: "instrument (y @ m @ rest) = (y @ m, rest) # xs" using y by simp
  have l: "y \<noteq> [] \<and> is_letter (hd y)"
    using assms(3) by (rule upper_first_letter) (simp_all add: capital_letters)
  obtain t where t: "parse_trade_signal (pre @ a @ ws @ y @ m @ rest) = Some t"
      "map_of t ''symbol'' = Some (filter (\<lambda>c. c \<noteq> CHR ''/'') (upper (y @ m)))"
    using symbol_of_longer_token [OF assms(1,2) conjunct1 [OF l] conjunct2 [OF l] i]
      assms(6) post by auto
  have "filter (\<lambda>c. c \<noteq> CHR ''/'') (upper (y @ m)) = ''EURUSD'' @ upper m"
    using letters_filtered [OF lm] assms(3) by (simp add: upper_def)
  moreover have "upper m \<noteq> []" using m by (simp add: upper_def)
  ultimately show ?thesis using t post by auto
qed

lemma pair_after_eurusd:
  assumes "is_action_token a" and "list_all is_space ws" and "upper y = ''EURUSD''"
    and "post = ''/'' @ v @ r" and "length v = 3" and "list_all is_letter v"
    and "\<forall>j < length pre. action_pattern (drop j pre @ a @ ws @ y @ post) = []"
  shows "\<exists>t m. m \<noteq> [] \<and> parse_trade_signal (pre @ a @ ws @ y @ post) = Some t \<and>
           map_of t ''symbol'' = Some (''EURUSD'' @ m)"
proof -
  have ly: "list_all is_letter y" using assms(3) eurusd_letters(1) by (rule upper_letters)
  have "length (upper y) = 6" using assms(3) by simp
  then have ny: "length y = 6" by (simp add: upper_def)
  obtain m rest where r: "r = m @ rest" and lm: "list_all is_letter m" and nm: "length m \<le> 3"
    and stop: "length m = 3 \<or> rest = [] \<or> \<not> is_letter (hd rest)"
    using letters_run [of r 3] by metis
  obtain xs where "instrument (y @ ''/'' @ (v @ m) @ rest) = (y @ ''/'' @ (v @ m), rest) # xs"
    using instrument_pair_first [of y "v @ m" rest] ly ny assms(5,6) lm nm stop by auto
  then have i: "instrument (y @ (''/'' @ v @ m) @ rest) = (y @ (''/'' @ v @ m), rest) # xs"
    by simp
  have l: "y \<noteq> [] \<and> is_letter (hd y)"
    using assms(3) by (rule upper_first_letter) (simp_all add: capital_letters)
  have e: "post = (''/'' @ v @ m) @ rest" using assms(4) r by simp
  obtain t where t: "parse_trade_signal (pre @ a @ ws @ y @ (''/'' @ v @ m) @ rest) = Some t"
      "map_of t ''symbol'' = Some (filter (\<lambda>c. c \<noteq> CHR ''/'') (upper (y @ (''/'' @ v @ m))))"
    using symbol_of_longer_token [OF assms(1,2) conjunct1 [OF l] conjunct2 [OF l] i]
      assms(7) unfolding e by blast
  have "list_all is_letter (v @ m)" using assms(6) lm by simp
  then have "filter (\<lambda>c. c \<noteq> CHR ''/'') (upper (v @ m)) = upper (v @ m)"
    by (rule letters_filtered)
  moreover have "upper ''/'' = ''/''" by (rule upper_literals)
  ultimately have "filter (\<lambda>c. c \<noteq> CHR ''/'') (upper (y @ (''/'' @ v @ m))) = ''EURUSD'' @ upper (v @ m)"
    using assms(3) by (simp add: upper_def)
  moreover have "upper (v @ m) \<noteq> []" using assms(5) by (auto simp: upper_def)
  ultimately show ?thesis using t unfolding e by auto
qed

lemma symbol_conditions_needed:
  assumes "is_action_token a" and "list_all is_space ws"
    and "upper y1 = ''EUR/USD''" and "upper y2 = ''EURUSD''"
    and "\<forall>j < length pre. action_pattern (drop j pre @ a @ ws @ y1 @ post) = []"
    and "\<forall>j < length pre. action_pattern (drop j pre @ a @ ws @ y2 @ post) = []"
    and "parse_trade_signal (pre @ a @ ws @ y1 @ post) = Some t1"
    and "parse_trade_signal (pre @ a @ ws @ y2 @ post) = Some t2"
    and "map_of t1 ''symbol'' = Some ''EURUSD''" and "map_of t2 ''symbol'' = Some ''EURUSD''"
  shows "(post = [] \<or> \<not> is_letter (hd post)) \<and>
         \<not> (\<exists>v r. post = ''/'' @ v @ r \<and> length v = 3 \<and> list_all is_letter v)"
proof (intro conjI notI)
  show "post = [] \<or> \<not> is_letter (hd post)"
  proof (rule ccontr)
    assume "\<not> (post = [] \<or> \<not> is_letter (hd post))"
    then have "post \<noteq> []" "is_letter (hd post)" by simp_all
    then obtain t m where "m \<noteq> []" "parse_trade_signal (pre @ a @ ws @ y1 @ post) = Some t"
        "map_of t ''symbol'' = Some (''EURUSD'' @ m)"
      using letter_after_eur_usd [OF assms(1,2,3) _ _ assms(5)] by blast
    then show False using assms(7,9) by simp
  qed
next
  assume "\<exists>v r. post = ''/'' @ v @ r \<and> length v = 3 \<and> list_all is_letter v"
  then obtain v r where "post = ''/'' @ v @ r" "length v = 3" "list_all is_letter v" by blast
  then obtain t m where "m \<noteq> []" "parse_trade_signal (pre @ a @ ws @ y2 @ post) = Some t"
      "map_of t ''symbol'' = Some (''EURUSD'' @ m)"
    using pair_after_eurusd [OF assms(1,2,4) _ _ _ assms(6)] by blast
  then show False using assms(8,10) by simp
qed

section \<open>The rules of the optional fields\<close>

lemma label_synonyms:
  "search entry_pattern ''Enter: 100'' = Some (''Enter'', ''100'')"
  "search entry_pattern ''Entry 100'' = Some (''Entry'', ''100'')"
  "search entry_pattern ''En:100'' = Some (''En'', ''100'')"
  "search tp_pattern ''TP 100'' = Some (''TP'', ''100'')"
  "search tp_pattern ''Take Profit: 100'' = Some (''Take Profit'', ''100'')"
  "search sl_pattern ''SL 100'' = Some (''SL'', ''100'')"
  "search sl_pattern ''Stop Loss: 100'' = Some (''Stop Loss'', ''100'')"
  by code_simp+

lemma first_label_wins:
  "parse_trade_signal ''Entry 1 BUY EURUSD Entry 2'' =
     Some [(''action'', ''BUY''), (''symbol'', ''EURUSD''), (''entry'', ''1'')]"
  by code_simp

text \<open>
  Claim C5. Letter case changes nothing: two texts that are the same up to letter case give
  the same result. Each of entry, take profit and stop loss is what its own rule finds in
  the whole text, whatever the other rules find and wherever the action stands. A rule
  reports its leftmost match: the first match at the first position where the rule
  matches, every earlier position having none. The synonyms of a label fill the same
  field: \<open>Enter: 100\<close>, \<open>Entry 100\<close> and \<open>En:100\<close> all give the entry \<open>100\<close>, as do
  \<open>TP\<close> and \<open>Take Profit\<close> for the take profit and \<open>SL\<close> and \<open>Stop Loss\<close> for the stop
  loss; and of two entries in one text the first is the one captured.
\<close>

theorem field_rules:
  "(\<forall>s1 s2. map to_lower s1 = map to_lower s2 \<longrightarrow>
      parse_trade_signal s1 = parse_trade_signal s2) \<and>
   (\<forall>s t. parse_trade_signal s = Some t \<longrightarrow>
      map_of t ''entry'' = map_option snd (search entry_pattern s) \<and>
      map_of t ''tp'' = map_option snd (search tp_pattern s) \<and>
      map_of t ''sl'' = map_option snd (search sl_pattern s)) \<and>
   (\<forall>p pre rest x xs.
      (p = entry_pattern \<or> p = tp_pattern \<or> p = sl_pattern) \<and> p rest = x # xs \<and>
      (\<forall>j < length pre. p (drop j pre @ rest) = []) \<longrightarrow>
      search p (pre @ rest) = Some x) \<and>
   (\<forall>p s x.
      (p = entry_pattern \<or> p = tp_pattern \<or> p = sl_pattern) \<and> search p s = Some x \<longrightarrow>
      (\<exists>pre rest xs. s = pre @ rest \<and> p rest = x # xs \<and>
         (\<forall>j < length pre. p (drop j pre @ rest) = []))) \<and>
   search entry_pattern ''Enter: 100'' = Some (''Enter'', ''100'') \<and>
   search entry_pattern ''Entry 100'' = Some (''Entry'', ''100'') \<and>
   search entry_pattern ''En:100'' = Some (''En'', ''100'') \<and>
   search tp_pattern ''TP 100'' = Some (''TP'', ''100'') \<and>
   search tp_pattern ''Take Profit: 100'' = Some (''Take Profit'', ''100'') \<and>
   search sl_pattern ''SL 100'' = Some (''SL'', ''100'') \<and>
   search sl_pattern ''Stop Loss: 100'' = Some (''Stop Loss'', ''100'') \<and>
   parse_trade_signal ''Entry 1 BUY EURUSD Entry 2'' =
     Some [(''action'', ''BUY''), (''symbol'', ''EURUSD''), (''entry'', ''1'')]"
proof (intro conjI allI impI)
  fix s1 s2 :: string assume "map to_lower s1 = map to_lower s2"
  then show "parse_trade_signal s1 = parse_trade_signal s2" by (rule parse_case_blind)
next
  fix s t assume t: "parse_trade_signal s = Some t"
  show "map_of t ''entry'' = map_option snd (search entry_pattern s)"
    using parse_lookup [OF t, of "''entry''"] by simp
  show "map_of t ''tp'' = map_option snd (search tp_pattern s)"
    using parse_lookup [OF t, of "''tp''"] by simp
  show "map_of t ''sl'' = map_option snd (search sl_pattern s)"
    using parse_lookup [OF t, of "''sl''"] by simp
next
  fix p :: "string \<Rightarrow> (string \<times> string) list" and pre rest x xs
  assume "(p = entry_pattern \<or> p = tp_pattern \<or> p = sl_pattern) \<and> p rest = x # xs \<and>
      (\<forall>j < length pre. p (drop j pre @ rest) = [])"
  then show "search p (pre @ rest) = Some x"
    using search_leftmost [of p rest x xs pre] by blast
next
  fix p :: "string \<Rightarrow> (string \<times> string) list" and s x
  assume "(p = entry_pattern \<or> p = tp_pattern \<or> p = sl_pattern) \<and> search p s = Some x"
  then show "\<exists>pre rest xs. s = pre @ rest \<and> p rest = x # xs \<and>
         (\<forall>j < length pre. p (drop j pre @ rest) = [])"
    using search_Some_D [of p s x] by blast
qed (rule label_synonyms first_label_wins)+

lemma same_up_to_case:
  "map to_lower ''buy eurusd ENTRY 1.5'' = map to_lower ''BUY EURUSD entry 1.5''"
  by code_simp

lemma parse_lower_example:
  "parse_trade_signal ''BUY EURUSD entry 1.5'' =
     Some [(''action'', ''BUY''), (''symbol'', ''EURUSD''), (''entry'', ''1.5'')]"
  by code_simp

lemma entry_at_en:
  "entry_pattern ''en 1.5'' =
     (''en'', ''1.5'') # [(''en'', ''1.''), (''en'', ''1''), (''en'', ''1.5''), (''en'', ''1.''), (''en'', ''1'')]"
  by code_simp

lemma no_entry_before_en:
  "\<forall>j < length ''BUY EURUSD th''. entry_pattern (drop j ''BUY EURUSD th'' @ ''en 1.5'') = []"
  unfolding below_iff_upt by code_simp

theorem field_rules_witness:
  "parse_trade_signal ''buy eurusd ENTRY 1.5'' =
     Some [(''action'', ''BUY''), (''symbol'', ''EURUSD''), (''entry'', ''1.5'')] \<and>
   search entry_pattern (''BUY EURUSD th'' @ ''en 1.5'') = Some (''en'', ''1.5'') \<and>
   map_of [(''action'', ''BUY''), (''symbol'', ''EURUSD''), (''entry'', ''1.5'')] ''tp''
     = map_option snd (search tp_pattern ''BUY EURUSD entry 1.5'') \<and>
   (\<exists>pre rest xs. ''Entry 100'' = pre @ rest \<and> entry_pattern rest = (''Entry'', ''100'') # xs \<and>
      (\<forall>j < length pre. entry_pattern (drop j pre @ rest) = []))"
proof -
  note f4 = field_rules [THEN conjunct2, THEN conjunct2, THEN conjunct2, THEN conjunct1, rule_format]
  have 4: "\<exists>pre rest xs. ''Entry 100'' = pre @ rest \<and> entry_pattern rest = (''Entry'', ''100'') # xs \<and>
      (\<forall>j < length pre. entry_pattern (drop j pre @ rest) = [])"
    using label_synonyms(2) by (intro f4 conjI disjI1 refl)
  note f1 = field_rules [THEN conjunct1, rule_format]
  note f2 = field_rules [THEN conjunct2, THEN conjunct1, rule_format]
  note f3 = field_rules [THEN conjunct2, THEN conjunct2, THEN conjunct1, rule_format]
  have 1: "parse_trade_signal ''buy eurusd ENTRY 1.5'' = parse_trade_signal ''BUY EURUSD entry 1.5''"
    using same_up_to_case by (rule f1)
  have 2: "search entry_pattern (''BUY EURUSD th'' @ ''en 1.5'') = Some (''en'', ''1.5'')"
    using entry_at_en no_entry_before_en
    by (intro f3 [of entry_pattern "''en 1.5''" "(''en'', ''1.5'')" _ "''BUY EURUSD th''"] conjI disjI1 refl)
  have 3: "map_of [(''action'', ''BUY''), (''symbol'', ''EURUSD''), (''entry'', ''1.5'')] ''tp''
     = map_option snd (search tp_pattern ''BUY EURUSD entry 1.5'')"
    using f2 [OF parse_lower_example] by (elim conjE)
  show ?thesis
    unfolding 1 parse_lower_example using 2 3 4 by (intro conjI refl)
qed

section \<open>Further properties of the extractor\<close>

text \<open>
  The groups of an action match hold letters only, and the second also \<open>/\<close>. These are
  ASCII, so \<open>upper\<close> is Python's \<open>str.upper\<close> on every string the extractor applies it to.
\<close>

lemma token_letters:
  assumes "is_instrument_token y"
  shows "list_all (\<lambda>c. is_letter c \<or> c = CHR ''/'') y"
proof -
  consider u v where "y = u @ ''/'' @ v" "is_letters_3_to_6 u" "is_letters_3_to_6 v"
    | q where "upper y = q" "list_all is_letter q"
    using assms unfolding is_instrument_token_def by (auto simp: capital_letters)
  then show ?thesis
  proof cases
    case 1
    then show ?thesis by (auto simp: is_letters_3_to_6_def list_all_iff)
  next
    case 2
    then have "list_all is_letter y" by (rule upper_letters)
    then show ?thesis by (auto simp: list_all_iff)
  qed
qed

theorem groups_are_ascii:
  assumes "search action_pattern s = Some (a, y)"
  shows "list_all is_letter a \<and> list_all (\<lambda>c. is_letter c \<or> c = CHR ''/'') y"
proof -
  obtain pre rest where "s = pre @ rest" "(a, y) \<in> set (action_pattern rest)"
    using search_member [OF assms] by blast
  then have t: "is_action_token a" "is_instrument_token y"
    unfolding action_pattern_in by blast+
  have "list_all is_letter a"
    using t(1) unfolding is_action_token_def
    by (auto intro: upper_letters [of a] simp: capital_letters is_letter_def uppers_def lowers_def)
  then show ?thesis using token_letters [OF t(2)] by simp
qed

lemma search_xau: "search action_pattern ''sell xau/usd'' = Some (''sell'', ''xau/usd'')"
  by code_simp

theorem groups_are_ascii_witness:
  "list_all is_letter ''sell'' \<and> list_all (\<lambda>c. is_letter c \<or> c = CHR ''/'') ''xau/usd''"
  using groups_are_ascii [OF search_xau] .

text \<open>
  The examples of field independence in the specification: each optional field is present
  exactly when its own label is, and a text with no signal gives \<open>None\<close>.
\<close>

theorem field_independence:
  "parse_trade_signal ''BUY XAUUSD TP: 1950.5'' =
     Some [(''action'', ''BUY''), (''symbol'', ''XAUUSD''), (''tp'', ''1950.5'')] \<and>
   parse_trade_signal ''SELL GBPUSD Entry 1.25 SL 1.30'' =
     Some [(''action'', ''SELL''), (''symbol'', ''GBPUSD''), (''entry'', ''1.25''), (''sl'', ''1.30'')] \<and>
   parse_trade_signal ''good morning traders'' = None"
  by code_simp


section \<open>The handler, case by case\<close>



lemma handler_signal:
  assumes "message ev = Some s" "parse_trade_signal s = Some t"
  shows "handler send dest w ev =
     (case send w dest (formatted_message t) of
        (None, w') \<Rightarrow>
          (None, [Print (NewMessage (chat_id ev)), Print (Detected t),
                  SendMessage dest (formatted_message t), Print Forwarded], w')
      | (Some (Exception e), w') \<Rightarrow>
          (None, [Print (NewMessage (chat_id ev)), Print (Detected t),
                  SendMessage dest (formatted_message t), Print (SendError e)], w')
      | (Some (BaseException e), w') \<Rightarrow>
          (Some (BaseException e), [Print (NewMessage (chat_id ev)), Print (Detected t),
                  SendMessage dest (formatted_message t)], w'))"
proof -
  have "s \<noteq> []" using assms(2) parse_nil by auto
  moreover have "t \<noteq> []" using assms(2) by (rule parse_Some_nonempty)
  ultimately show ?thesis using assms
    by (auto simp: handler_def handler_on_def Let_def split: prod.splits option.splits exn.splits)
qed

lemma handler_signal_sends:
  assumes "message ev = Some s" "parse_trade_signal s = Some t"
  shows "sends (fst (snd (handler send dest w ev))) = [(dest, formatted_message t)]"
  unfolding handler_signal [OF assms]
  by (auto split: prod.splits option.splits exn.splits)



text \<open>
  Claim C7. When the send of an event raises an error (an \<open>Exception\<close>), the handler
  catches it: it returns normally, having printed the error after its one send attempt
  (there is no second attempt), and the run goes on with the next event, from the state
  in which the destination was left; nothing else of the failed event reaches the
  events after it.
\<close>

theorem send_failure_contained:
  assumes "message ev = Some s" and "parse_trade_signal s = Some t"
    and "send w dest (formatted_message t) = (Some (Exception e), w')"
  shows "handler send dest w ev =
           (None, [Print (NewMessage (chat_id ev)), Print (Detected t),
                   SendMessage dest (formatted_message t), Print (SendError e)], w') \<and>
         sends (fst (snd (handler send dest w ev))) = [(dest, formatted_message t)] \<and>
         (chat_id ev \<in> set srcs \<longrightarrow>
            dispatch send srcs dest w (ev # evs) =
              (case dispatch send srcs dest w' evs of
                 (r, out, w'') \<Rightarrow> (r, fst (snd (handler send dest w ev)) @ out, w'')))"
proof -
  have h: "handler send dest w ev =
           (None, [Print (NewMessage (chat_id ev)), Print (Detected t),
                   SendMessage dest (formatted_message t), Print (SendError e)], w')"
    using handler_signal [OF assms(1,2), of send dest w] assms(3) by simp
  show ?thesis
    by (simp add: h)
qed

theorem send_failure_contained_witness:
  "handler (\<lambda>w d b. (hd w, tl w)) 7 [Some (Exception ''flood''), None]
       \<lparr>chat_id = 1, message = Some ''BUY EURUSD''\<rparr>
     = (None, [Print (NewMessage 1), Print (Detected [(''action'', ''BUY''), (''symbol'', ''EURUSD'')]),
               SendMessage 7 (formatted_message [(''action'', ''BUY''), (''symbol'', ''EURUSD'')]),
               Print (SendError ''flood'')], [None]) \<and>
   dispatch (\<lambda>w d b. (hd w, tl w)) [1] 7 [Some (Exception ''flood''), None]
       [\<lparr>chat_id = 1, message = Some ''BUY EURUSD''\<rparr>, \<lparr>chat_id = 1, message = Some ''BUY EURUSD''\<rparr>]
     = (None, [Print (NewMessage 1), Print (Detected [(''action'', ''BUY''), (''symbol'', ''EURUSD'')]),
               SendMessage 7 (formatted_message [(''action'', ''BUY''), (''symbol'', ''EURUSD'')]),
               Print (SendError ''flood''),
               Print (NewMessage 1), Print (Detected [(''action'', ''BUY''), (''symbol'', ''EURUSD'')]),
               SendMessage 7 (formatted_message [(''action'', ''BUY''), (''symbol'', ''EURUSD'')]),
               Print Forwarded], [])"
proof -
  let ?send = "\<lambda>(w::exn option list) (d::int) (b::body). (hd w, tl w)"
  let ?ev = "\<lparr>chat_id = 1, message = Some ''BUY EURUSD''\<rparr>"
  let ?t = "[(''action'', ''BUY''), (''symbol'', ''EURUSD'')]"
  have m: "message ?ev = Some ''BUY EURUSD''" by simp
  have s: "?send [Some (Exception ''flood''), None] 7 (formatted_message ?t)
             = (Some (Exception ''flood''), [None])" by simp
  note c = send_failure_contained [where send = ?send and w = "[Some (Exception ''flood''), None]"
      and dest = 7 and ev = ?ev and s = "''BUY EURUSD''" and t = ?t and e = "''flood''"
      and w' = "[None]" and srcs = "[1]" and evs = "[?ev]", OF m parse_buy_eurusd s]
  have second: "handler ?send 7 [None] ?ev =
      (None, [Print (NewMessage 1), Print (Detected ?t), SendMessage 7 (formatted_message ?t),
              Print Forwarded], [])"
    using handler_signal [OF m parse_buy_eurusd, of ?send 7 "[None]"] by simp
  have rest: "dispatch ?send [1] 7 [None] [?ev] =
      (None, [Print (NewMessage 1), Print (Detected ?t), SendMessage 7 (formatted_message ?t),
              Print Forwarded], [])"
    by (simp add: second)
  from c have first: "handler ?send 7 [Some (Exception ''flood''), None] ?ev =
      (None, [Print (NewMessage 1), Print (Detected ?t), SendMessage 7 (formatted_message ?t),
              Print (SendError ''flood'')], [None])"
    by simp
  from c have "dispatch ?send [1] 7 [Some (Exception ''flood''), None] [?ev, ?ev] =
      (case dispatch ?send [1] 7 [None] [?ev] of
         (r, out, w'') \<Rightarrow>
           (r, fst (snd (handler ?send 7 [Some (Exception ''flood''), None] ?ev)) @ out, w''))"
    by simp
  then show ?thesis
    unfolding rest first by simp
qed


section \<open>The outbound message\<close>

lemma formatted_message_template:
  assumes "map_of t ''symbol'' = Some symb" "map_of t ''action'' = Some actn"
  shows "formatted_message t =
           template symb actn (map_of t ''entry'') (map_of t ''sl'') (map_of t ''tp'')"
  using assms
  by (simp add: formatted_message_def template_def join_lines_def get_def or_not_specified_def
      split: option.splits)

text \<open>
  Claim C9. The body sent for an extracted signal is the template of the specification,
  filled with the symbol and the action of the record and with its entry, stop loss and
  take profit, each replaced by \<open>Not Specified\<close> when the record lacks it. For the text
  \<open>BUY GBPUSD Entry: 1.2650 SL 1.2600 TP 1.2750\<close> the one send has the body whose lines
  are the heading, an empty line, the fence, \<open>Action:      BUY\<close>, \<open>Entry:       1.2650\<close>,
  \<open>Stop Loss:   1.2600\<close>, \<open>Take Profit: 1.2750\<close> and the fence.
\<close>

theorem outbound_body:
  "(\<forall>s t. message ev = Some s \<and> parse_trade_signal s = Some t \<longrightarrow>
      (\<exists>symb actn. map_of t ''symbol'' = Some symb \<and> map_of t ''action'' = Some actn \<and>
         sends (fst (snd (handler send dest w ev))) =
           [(dest, template symb actn (map_of t ''entry'') (map_of t ''sl'') (map_of t ''tp''))])) \<and>
   (message ev = Some ''BUY GBPUSD Entry: 1.2650 SL 1.2600 TP 1.2750'' \<longrightarrow>
      sends (fst (snd (handler send dest w ev))) =
        [(dest, join_lines
           [fire @ code_points '' **Forwarded Signal: GBPUSD** '' @ fire,
            [],
            code_points ''```'',
            code_points ''Action:      BUY'',
            code_points ''Entry:       1.2650'',
            code_points ''Stop Loss:   1.2600'',
            code_points ''Take Profit: 1.2750'',
            code_points ''```''])])"
proof (intro conjI allI impI)
  fix s t assume a: "message ev = Some s \<and> parse_trade_signal s = Some t"
  then have p: "parse_trade_signal s = Some t" by simp
  have n: "search action_pattern s \<noteq> None" using p parse_None_iff [of s] by auto
  then obtain g1 g2 where g: "search action_pattern s = Some (g1, g2)" by auto
  have 1: "map_of t ''symbol'' = Some (filter (\<lambda>c. c \<noteq> CHR ''/'') (upper g2))"
    using parse_lookup [OF p, of "''symbol''"] g by simp
  have 2: "map_of t ''action'' = Some (upper g1)"
    using parse_lookup [OF p, of "''action''"] g by simp
  show "\<exists>symb actn. map_of t ''symbol'' = Some symb \<and> map_of t ''action'' = Some actn \<and>
         sends (fst (snd (handler send dest w ev))) =
           [(dest, template symb actn (map_of t ''entry'') (map_of t ''sl'') (map_of t ''tp''))]"
    using a 1 2 handler_signal_sends [of ev s t send dest w] formatted_message_template [OF 1 2]
    by simp
next
  assume m: "message ev = Some ''BUY GBPUSD Entry: 1.2650 SL 1.2600 TP 1.2750''"
  show "sends (fst (snd (handler send dest w ev))) =
        [(dest, join_lines
           [fire @ code_points '' **Forwarded Signal: GBPUSD** '' @ fire,
            [],
            code_points ''```'',
            code_points ''Action:      BUY'',
            code_points ''Entry:       1.2650'',
            code_points ''Stop Loss:   1.2600'',
            code_points ''Take Profit: 1.2750'',
            code_points ''```''])]"
    unfolding handler_signal_sends [OF m parse_scenario]
    by (simp add: formatted_message_def join_lines_def get_def code_points_def)
qed

theorem outbound_body_witness:
  "sends (fst (snd (handler (\<lambda>w d b. (None, Suc w)) 7 (0::nat)
       \<lparr>chat_id = 1, message = Some ''BUY GBPUSD Entry: 1.2650 SL 1.2600 TP 1.2750''\<rparr>))) =
     [(7, join_lines
           [fire @ code_points '' **Forwarded Signal: GBPUSD** '' @ fire,
            [],
            code_points ''```'',
            code_points ''Action:      BUY'',
            code_points ''Entry:       1.2650'',
            code_points ''Stop Loss:   1.2600'',
            code_points ''Take Profit: 1.2750'',
            code_points ''```''])] \<and>
   sends (fst (snd (handler (\<lambda>w d b. (None, Suc w)) 7 (0::nat)
       \<lparr>chat_id = 1, message = Some ''BUY EURUSD''\<rparr>))) =
     [(7, template ''EURUSD'' ''BUY'' None None None)]"
  using outbound_body [where ev = "\<lparr>chat_id = 1, message = Some ''BUY GBPUSD Entry: 1.2650 SL 1.2600 TP 1.2750''\<rparr>"
            and send = "\<lambda>w d b. (None, Suc w)" and dest = 7 and w = "0::nat"]
        outbound_body [where ev = "\<lparr>chat_id = 1, message = Some ''BUY EURUSD''\<rparr>"
            and send = "\<lambda>w d b. (None, Suc w)" and dest = 7 and w = "0::nat"]
  by (simp add: parse_buy_eurusd)


section \<open>Startup with a bad configuration\<close>

lemma ints_of_Inl: "ints_of to_int xs = Inl e \<Longrightarrow> \<exists>x \<in> set xs. to_int (strip x) = None"
  by (induction xs arbitrary: e) (auto simp: int_of_def split: option.splits sum.splits)

lemma ints_of_Inr:
  "ints_of to_int xs = Inr ns \<Longrightarrow> x \<in> set xs \<Longrightarrow> \<exists>n. to_int (strip x) = Some n"
  by (induction xs arbitrary: ns) (auto simp: int_of_def split: option.splits sum.splits)

lemma load_config_Inl_iff:
  "(\<exists>e. load_config to_int env = Inl e) \<longleftrightarrow> missing_or_malformed to_int env"
  unfolding load_config_def missing_or_malformed_def environ_def int_of_def
  by (auto split: option.splits sum.splits dest: ints_of_Inl ints_of_Inr)

lemma decimal_int_examples:
  "decimal_int ''12345'' = Some 12345"
  "decimal_int '' -1_001 '' = Some (- 1001)"
  "decimal_int ''+007'' = Some 7"
  "decimal_int (CHR 0xA0 # ''12'') = Some 12"
  "decimal_int (CHR 0x1C # ''12'') = None"
  "decimal_int ''- 1'' = None"
  "decimal_int ''1__0'' = None"
  "decimal_int ''1_'' = None"
  "decimal_int ''1.5'' = None"
  "decimal_int [] = None"
  by code_simp+

lemma decimal_int_limit:
  "max_str_digits < length (filter is_digit s) \<Longrightarrow> unsigned_value s = None"
  by (auto simp: unsigned_value_def split: list.splits)

lemma main_bad_source:
  "main decimal_int
     [''API_ID'' \<mapsto> ''12345'', ''API_HASH'' \<mapsto> ''0123abcd'',
      ''SOURCE_CHANNEL_IDS'' \<mapsto> ''-1001, abc'', ''DESTINATION_CHANNEL_ID'' \<mapsto> ''-1002'']
   = [PrintStarting, PrintSecretsError (ValueError ''abc'')]"
  by code_simp

lemma main_good:
  "main decimal_int
     [''API_ID'' \<mapsto> ''12345'', ''API_HASH'' \<mapsto> ''0123abcd'',
      ''SOURCE_CHANNEL_IDS'' \<mapsto> ''-1001, -1003'', ''DESTINATION_CHANNEL_ID'' \<mapsto> ''-1002'']
   = [PrintStarting, CreateClient ''signal_copier.session'' 12345 ''0123abcd'',
      Subscribe [-1001, -1003] (-1002), StartClient, PrintListening [-1001, -1003],
      RunUntilDisconnected]"
  by code_simp

text \<open>
  Claim C8. When a required setting is missing or does not parse as an integer, \<open>main\<close>
  prints its two lines and returns: it creates no client, subscribes to nothing and
  starts no run, so nothing is ever sent. It does so in no other case.
\<close>

theorem startup_aborts:
  "missing_or_malformed to_int env \<longleftrightarrow>
     (\<exists>e. main to_int env = [PrintStarting, PrintSecretsError e])"
  unfolding load_config_Inl_iff [symmetric]
  by (auto simp: main_def split: sum.splits)

theorem startup_aborts_witness:
  "missing_or_malformed decimal_int
     [''API_ID'' \<mapsto> ''12345'', ''API_HASH'' \<mapsto> ''0123abcd'',
      ''SOURCE_CHANNEL_IDS'' \<mapsto> ''-1001, abc'', ''DESTINATION_CHANNEL_ID'' \<mapsto> ''-1002''] \<and>
   main decimal_int
     [''API_ID'' \<mapsto> ''12345'', ''API_HASH'' \<mapsto> ''0123abcd'',
      ''SOURCE_CHANNEL_IDS'' \<mapsto> ''-1001, abc'', ''DESTINATION_CHANNEL_ID'' \<mapsto> ''-1002'']
   = [PrintStarting, PrintSecretsError (ValueError ''abc'')] \<and>
   \<not> missing_or_malformed decimal_int
     [''API_ID'' \<mapsto> ''12345'', ''API_HASH'' \<mapsto> ''0123abcd'',
      ''SOURCE_CHANNEL_IDS'' \<mapsto> ''-1001, -1003'', ''DESTINATION_CHANNEL_ID'' \<mapsto> ''-1002'']"
  using startup_aborts [of decimal_int "[''API_ID'' \<mapsto> ''12345'', ''API_HASH'' \<mapsto> ''0123abcd'',
      ''SOURCE_CHANNEL_IDS'' \<mapsto> ''-1001, abc'', ''DESTINATION_CHANNEL_ID'' \<mapsto> ''-1002'']"]
    startup_aborts [of decimal_int "[''API_ID'' \<mapsto> ''12345'', ''API_HASH'' \<mapsto> ''0123abcd'',
      ''SOURCE_CHANNEL_IDS'' \<mapsto> ''-1001, -1003'', ''DESTINATION_CHANNEL_ID'' \<mapsto> ''-1002'']"]
  unfolding main_bad_source main_good by simp


section \<open>Matching is by substring\<close>

text \<open>
  Claim C10. No pattern is anchored at a word boundary, so a token or a label inside
  another word is accepted: \<open>REBUY EURUSD\<close> gives the action \<open>BUY\<close> with the symbol
  \<open>EURUSD\<close>, and in \<open>BUY EURUSD then 1.5\<close> the letters \<open>en\<close> of \<open>then\<close> are read as the
  entry label, which gives the entry \<open>1.5\<close>.
\<close>

theorem substring_matching:
  "parse_trade_signal ''REBUY EURUSD'' = Some [(''action'', ''BUY''), (''symbol'', ''EURUSD'')] \<and>
   parse_trade_signal ''BUY EURUSD then 1.5'' =
     Some [(''action'', ''BUY''), (''symbol'', ''EURUSD''), (''entry'', ''1.5'')]"
  by code_simp


end
